theory Spec2Isabelle
  imports Complex_Main "HOL-Library.Word" "HOL-Library.Multiset"
begin

section \<open>JavaScript values\<close>

text \<open>
  A JavaScript string is a sequence of UTF-16 code units, and \<open>length\<close> counts code
  units; so a string is a list of 16-bit words. \<open>js\<close> embeds an ASCII literal.
\<close>

type_synonym jsstring = "16 word list"

definition js :: "string \<Rightarrow> jsstring" where
  "js s = map (\<lambda>c. of_char c) s"

text \<open>
  Numbers are doubles. Only comparisons against constant bounds are made on them in this
  program, so a finite number is the rational it denotes; the three non-finite values are
  kept apart.
\<close>

datatype jsnum = NaN | PosInf | NegInf | Finite rat

datatype jsval =
    JUndefined
  | JNull
  | JBool bool
  | JNum jsnum
  | JStr jsstring
  | JArr "jsval list"
  | JObj "(jsstring \<times> jsval) list"
  | JFunction

text \<open>
  Every \<open>throw\<close> of the program, and every exception of the language that it can meet,
  throws an error object; its constructor and message.
\<close>

datatype exn = Error jsstring | TypeError jsstring | SyntaxError jsstring | RangeError jsstring

fun message :: "exn \<Rightarrow> jsstring" where
  "message (Error m) = m"
| "message (TypeError m) = m"
| "message (SyntaxError m) = m"
| "message (RangeError m) = m"

definition stack_overflow :: exn where
  \<comment> \<open>what a call throws when the call stack has no room for its activation\<close>
  "stack_overflow = RangeError (js ''Maximum call stack size exceeded'')"

section \<open>InputValidator (src/utils/DeviceFormatter.js, second part)\<close>

subsection \<open>Character classes and regular expressions\<close>

definition is_digit :: "16 word \<Rightarrow> bool" where
  \<comment> \<open>\<open>\d\<close> and \<open>[0-9]\<close>\<close>
  "is_digit c = (0x30 \<le> c \<and> c \<le> 0x39)"

definition is_hex_upper :: "16 word \<Rightarrow> bool" where
  \<comment> \<open>\<open>[0-9A-F]\<close>\<close>
  "is_hex_upper c = (is_digit c \<or> (0x41 \<le> c \<and> c \<le> 0x46))"

definition is_hex_i :: "16 word \<Rightarrow> bool" where
  \<comment> \<open>\<open>[0-9A-F]\<close> under the flag \<open>i\<close>: a code unit matches when its upper case is in the
      class, and no code unit from 128 on is mapped into ASCII.\<close>
  "is_hex_i c = (is_hex_upper c \<or> (0x61 \<le> c \<and> c \<le> 0x66))"

definition hyphen :: "16 word" where
  "hyphen = 0x2D"

definition SHELL_METACHARACTERS :: "16 word list" where
  \<comment> \<open>the nineteen characters of the regular expression's class: semicolon, ampersand,
      bar, backtick, dollar, backslash, less, greater, both braces, both brackets, both
      parentheses, hash, star, question mark, tilde, exclamation mark\<close>
  "SHELL_METACHARACTERS =
     [0x3B, 0x26, 0x7C, 0x60, 0x24, 0x5C, 0x3C, 0x3E, 0x7B, 0x7D, 0x5B, 0x5D,
      0x28, 0x29, 0x23, 0x2A, 0x3F, 0x7E, 0x21]"

definition SHELL_METACHARACTERS_test :: "jsstring \<Rightarrow> bool" where
  \<comment> \<open>\<open>SHELL_METACHARACTERS.test(s)\<close>: an unanchored one-character class\<close>
  "SHELL_METACHARACTERS_test s = list_ex (\<lambda>c. c \<in> set SHELL_METACHARACTERS) s"

text \<open>\<open>match_class P n s\<close> consumes exactly \<open>n\<close> code units of the class \<open>P\<close>: \<open>[..]{n}\<close>.\<close>

fun match_class :: "(16 word \<Rightarrow> bool) \<Rightarrow> nat \<Rightarrow> jsstring \<Rightarrow> jsstring option" where
  "match_class P 0 s = Some s"
| "match_class P (Suc n) [] = None"
| "match_class P (Suc n) (c # s) = (if P c then match_class P n s else None)"

fun match_char :: "16 word \<Rightarrow> jsstring \<Rightarrow> jsstring option" where
  "match_char d [] = None"
| "match_char d (c # s) = (if c = d then Some s else None)"

text \<open>
  The body shared by the two UDID patterns,
  \<open>[0-9A-F]{8}-[0-9A-F]{4}-[0-9A-F]{4}-[0-9A-F]{4}-[0-9A-F]{12}\<close>, matched at the start of
  \<open>s\<close>; the result is what follows the match.
\<close>

definition match_udid :: "(16 word \<Rightarrow> bool) \<Rightarrow> jsstring \<Rightarrow> jsstring option" where
  "match_udid P s =
     Option.bind (match_class P 8 s) (\<lambda>s1.
     Option.bind (match_char hyphen s1) (\<lambda>s2.
     Option.bind (match_class P 4 s2) (\<lambda>s3.
     Option.bind (match_char hyphen s3) (\<lambda>s4.
     Option.bind (match_class P 4 s4) (\<lambda>s5.
     Option.bind (match_char hyphen s5) (\<lambda>s6.
     Option.bind (match_class P 4 s6) (\<lambda>s7.
     Option.bind (match_char hyphen s7) (\<lambda>s8.
     match_class P 12 s8))))))))"

definition udidPattern_test :: "jsstring \<Rightarrow> bool" where
  \<comment> \<open>\<open>/^...$/i.test(udid)\<close>; without the flag \<open>m\<close>, \<open>$\<close> is the end of the input\<close>
  "udidPattern_test s = (match_udid is_hex_i s = Some [])"

definition upper_unit :: "16 word \<Rightarrow> 16 word" where
  "upper_unit c = (if 0x61 \<le> c \<and> c \<le> 0x7A then c - 0x20 else c)"

definition toUpperCase :: "jsstring \<Rightarrow> jsstring" where
  \<comment> \<open>\<open>String.prototype.toUpperCase\<close> on ASCII: the program applies it only to strings
      that matched \<open>udidPattern\<close>\<close>
  "toUpperCase s = map upper_unit s"

subsection \<open>The validators\<close>

definition validateAccessibilityLabel :: "jsval \<Rightarrow> exn + jsstring" where
  "validateAccessibilityLabel label =
     (case label of
        JStr s \<Rightarrow>
          if length s = 0 then Inl (Error (js ''Accessibility label cannot be empty''))
          else if length s > 512 then
            Inl (Error (js ''Accessibility label is too long (max 512 characters)''))
          else if SHELL_METACHARACTERS_test s then
            Inl (Error (js ''Accessibility label contains potentially unsafe characters''))
          else Inr s
      | _ \<Rightarrow> Inl (Error (js ''Accessibility label must be a string'')))"

definition validateTypeText :: "jsval \<Rightarrow> exn + jsstring" where
  "validateTypeText text =
     (case text of
        JStr s \<Rightarrow>
          if length s = 0 then Inl (Error (js ''Text cannot be empty''))
          else if length s > 10000 then
            Inl (Error (js ''Text is too long (max 10000 characters)''))
          else if SHELL_METACHARACTERS_test s then
            Inl (Error (js
              ''Text contains potentially unsafe shell characters. Use only printable characters.''))
          else Inr s
      | _ \<Rightarrow> Inl (Error (js ''Text must be a string'')))"

definition validateUDID :: "jsval \<Rightarrow> exn + jsstring" where
  "validateUDID udid =
     (case udid of
        JStr s \<Rightarrow>
          if \<not> udidPattern_test s then Inl (Error (js ''Invalid UDID format''))
          else Inr (toUpperCase s)
      | _ \<Rightarrow> Inl (Error (js ''UDID must be a string'')))"

text \<open>
  The pattern in the words of the specification: five groups of 8, 4, 4, 4 and 12
  hexadecimal digits of either case, separated by hyphens, and nothing else.
\<close>

definition udid_grouped :: "jsstring \<Rightarrow> bool" where
  "udid_grouped s =
     (\<exists>g1 g2 g3 g4 g5.
        s = g1 @ [hyphen] @ g2 @ [hyphen] @ g3 @ [hyphen] @ g4 @ [hyphen] @ g5 \<and>
        length g1 = 8 \<and> length g2 = 4 \<and> length g3 = 4 \<and> length g4 = 4 \<and> length g5 = 12 \<and>
        list_all is_hex_i (g1 @ g2 @ g3 @ g4 @ g5))"

section \<open>DeviceFormatter (src/utils/DeviceFormatter.js, first part)\<close>

text \<open>
  \<open>/iOS-(\d+)-(\d+)/\<close> at the start of \<open>s\<close>. A greedy \<open>\d+\<close> takes the longest run of
  digits; giving digits back cannot help, as the next code unit must be the hyphen (or
  the end of the match). The result is the pair of captured groups.
\<close>

definition match_iOS_at :: "jsstring \<Rightarrow> (jsstring \<times> jsstring) option" where
  "match_iOS_at s =
     (if take 4 s = js ''iOS-'' then
        let r = drop 4 s; g1 = takeWhile is_digit r in
        if g1 = [] then None
        else (case match_char hyphen (dropWhile is_digit r) of
                None \<Rightarrow> None
              | Some r2 \<Rightarrow>
                  let g2 = takeWhile is_digit r2 in
                  if g2 = [] then None else Some (g1, g2))
      else None)"

text \<open>\<open>runtime.match(...)\<close>: the leftmost position at which the pattern matches.\<close>

fun match_iOS :: "jsstring \<Rightarrow> (jsstring \<times> jsstring) option" where
  "match_iOS [] = None"
| "match_iOS (c # s) =
     (case match_iOS_at (c # s) of Some g \<Rightarrow> Some g | None \<Rightarrow> match_iOS s)"

definition extractIOSVersion :: "jsstring \<Rightarrow> jsstring" where
  "extractIOSVersion runtime =
     (case match_iOS runtime of
        Some (major, minor) \<Rightarrow> js ''iOS '' @ major @ js ''.'' @ minor
      | None \<Rightarrow> runtime)"

text \<open>
  "Contains the pattern \<open>iOS-<digits>-<digits>\<close>", in the words of the specification.
\<close>

definition digits :: "jsstring \<Rightarrow> bool" where
  "digits d = (d \<noteq> [] \<and> list_all is_digit d)"

definition contains_iOS_pattern :: "jsstring \<Rightarrow> bool" where
  "contains_iOS_pattern s =
     (\<exists>pre d1 d2 post. s = pre @ js ''iOS-'' @ d1 @ [hyphen] @ d2 @ post \<and> digits d1 \<and> digits d2)"

text \<open>
  A match of the pattern in \<open>s\<close>: what is before it, its two digit groups and what is
  after it. The match that \<open>String.prototype.match\<close> reports is the leftmost one, with
  each group as long as it can be: the first ends at the hyphen, and no digit follows
  the second.
\<close>

definition iOS_match :: "jsstring \<Rightarrow> jsstring \<Rightarrow> jsstring \<Rightarrow> jsstring \<Rightarrow> jsstring \<Rightarrow> bool" where
  "iOS_match s pre major minor post =
     (s = pre @ js ''iOS-'' @ major @ [hyphen] @ minor @ post \<and> digits major \<and> digits minor)"

definition leftmost_iOS_match :: "jsstring \<Rightarrow> jsstring \<Rightarrow> jsstring \<Rightarrow> jsstring \<Rightarrow> jsstring \<Rightarrow> bool" where
  "leftmost_iOS_match s pre major minor post =
     (iOS_match s pre major minor post \<and>
      (post = [] \<or> \<not> is_digit (hd post)) \<and>
      (\<forall>pre' major' minor' post'.
         iOS_match s pre' major' minor' post' \<longrightarrow> length pre \<le> length pre'))"

section \<open>DescribeUITool.extractElements (src/tools/SwipeTool.js, second part)\<close>

text \<open>Truthiness (\<open>!v\<close>, \<open>a || b\<close>, \<open>if (v)\<close>) and \<open>typeof v === "object"\<close>.\<close>

fun truthy :: "jsval \<Rightarrow> bool" where
  "truthy JUndefined = False"
| "truthy JNull = False"
| "truthy (JBool b) = b"
| "truthy (JNum n) = (n \<noteq> NaN \<and> n \<noteq> Finite 0)"
| "truthy (JStr s) = (s \<noteq> [])"
| "truthy (JArr xs) = True"
| "truthy (JObj kvs) = True"
| "truthy JFunction = True"

fun typeof_object :: "jsval \<Rightarrow> bool" where
  "typeof_object JNull = True"
| "typeof_object (JArr xs) = True"
| "typeof_object (JObj kvs) = True"
| "typeof_object v = False"

text \<open>
  \<open>v.k\<close> and \<open>v?.k\<close> for the property names this program reads (none of them is defined
  by a prototype, and none is an index or \<open>length\<close>): the own property of an object, and
  \<open>undefined\<close> on every other value. Where the program reads a property of a value
  without \<open>?.\<close>, the value is known not to be \<open>null\<close> or \<open>undefined\<close>. The
  properties of an object are an association list, in which the first entry for a key
  is the property.
\<close>

fun get_prop :: "jsval \<Rightarrow> jsstring \<Rightarrow> jsval" where
  "get_prop (JObj kvs) k = (case map_of kvs k of Some v \<Rightarrow> v | None \<Rightarrow> JUndefined)"
| "get_prop v k = JUndefined"

record element =
  el_type :: jsval
  el_label :: jsval
  el_id :: jsval
  el_value :: jsval
  el_enabled :: jsval
  el_frame :: jsval

definition or_else :: "jsval \<Rightarrow> jsval \<Rightarrow> jsval" where
  "or_else a b = (if truthy a then a else b)"

definition make_element :: "jsval \<Rightarrow> element" where
  "make_element node =
     \<lparr>el_type = or_else (get_prop node (js ''type'')) (get_prop node (js ''role'')),
      el_label = get_prop node (js ''AXLabel''),
      el_id = get_prop node (js ''AXUniqueId''),
      el_value = get_prop node (js ''AXValue''),
      el_enabled = get_prop node (js ''enabled''),
      el_frame = get_prop node (js ''frame'')\<rparr>"

text \<open>
  \<open>extractElements\<close> calls itself on the children of a node, so a tree that is nested
  deeply needs as many activations on the call stack, and the call that finds no room
  throws a \<open>RangeError\<close>. \<open>extractNodes d\<close> is the loop of one activation over \<open>nodes\<close>,
  with the array \<open>elements\<close> that every activation pushes to, when the stack has room
  for \<open>d\<close> more activations below this one. The loop over the nodes of one array runs in
  one activation; the recursion is on the children of a node, which are smaller.
\<close>

lemma size_map_of:
  "map_of kvs k = Some v \<Longrightarrow> size v < Suc (size_list (size_prod (\<lambda>_. 0) size) kvs)"
  by (induction kvs) (auto split: if_splits)

lemma size_prop_children:
  "get_prop node k = JArr cs \<Longrightarrow> size_list size cs < size node"
  by (cases node) (auto split: option.splits dest: size_map_of)

fun Array_isArray :: "jsval \<Rightarrow> bool" where
  "Array_isArray (JArr xs) = True"
| "Array_isArray v = False"

fun array_items :: "jsval \<Rightarrow> jsval list" where
  \<comment> \<open>the elements that \<open>for (... of v)\<close> runs over, for an array \<open>v\<close>\<close>
  "array_items (JArr xs) = xs"
| "array_items v = []"

lemma size_array_items:
  "Array_isArray (get_prop node k) \<Longrightarrow> size_list size (array_items (get_prop node k)) < size node"
  by (cases "get_prop node k") (auto dest: size_prop_children)

function extractNodes :: "nat \<Rightarrow> jsval list \<Rightarrow> element list \<Rightarrow> exn + element list" where
  "extractNodes d [] elements = Inr elements"
| "extractNodes d (node # nodes) elements =
     (if \<not> truthy node \<or> \<not> typeof_object node then extractNodes d nodes elements
      else
        let element = make_element node;
            elements1 =
              (if truthy (el_label element) \<or> truthy (el_id element)
               then elements @ [element] else elements)
        in
          if truthy (get_prop node (js ''children'')) \<and>
             Array_isArray (get_prop node (js ''children''))
          then
            (case d of
               0 \<Rightarrow> Inl stack_overflow
             | Suc d' \<Rightarrow>
                 (case extractNodes d' (array_items (get_prop node (js ''children''))) elements1 of
                    Inl e \<Rightarrow> Inl e
                  | Inr elements2 \<Rightarrow> extractNodes d nodes elements2))
          else extractNodes d nodes elements1)"
  by pat_completeness auto
termination
  by (relation "measure (\<lambda>(d, nodes, elements). size_list size nodes)")
     (auto dest: size_array_items)

text \<open>
  The call \<open>extractElements(nodes)\<close> when the stack has room for \<open>stack\<close> nested
  activations of \<open>extractElements\<close>, this one included.
\<close>

definition extractElements :: "nat \<Rightarrow> jsval \<Rightarrow> exn + element list" where
  "extractElements stack nodes =
     (case stack of
        0 \<Rightarrow> Inl stack_overflow
      | Suc d \<Rightarrow>
          extractNodes d (if \<not> Array_isArray nodes then [nodes] else array_items nodes) [])"

text \<open>
  In the words of the specification: the nodes of the tree in depth-first order (a node
  before its children, the children in their order), and the nodes that carry a label
  or an identifier (a truthy \<open>AXLabel\<close> or \<open>AXUniqueId\<close>).
\<close>

definition children :: "jsval \<Rightarrow> jsval list" where
  "children node = (case get_prop node (js ''children'') of JArr cs \<Rightarrow> cs | _ \<Rightarrow> [])"

lemma size_children: "c \<in> set (children node) \<Longrightarrow> size c < size node"
proof -
  assume c: "c \<in> set (children node)"
  then obtain cs where cs: "get_prop node (js ''children'') = JArr cs" "c \<in> set cs"
    by (cases "get_prop node (js ''children'')") (auto simp: children_def)
  have "size c \<le> size_list size cs"
    using cs(2) by (induction cs) auto
  with size_prop_children [OF cs(1)] show ?thesis by simp
qed

function depth_first :: "jsval \<Rightarrow> jsval list" where
  "depth_first node =
     (if truthy node \<and> typeof_object node
      then node # concat (map depth_first (children node)) else [])"
  by pat_completeness auto
termination
  by (relation "measure size") (auto dest: size_children)

declare depth_first.simps [simp del]

definition carries_label_or_id :: "jsval \<Rightarrow> bool" where
  "carries_label_or_id node =
     (truthy (get_prop node (js ''AXLabel'')) \<or> truthy (get_prop node (js ''AXUniqueId'')))"

text \<open>
  How deep the children arrays of the nodes are nested: the number of activations that
  the loop over \<open>nodes\<close> needs below its own.
\<close>

function nesting :: "jsval list \<Rightarrow> nat" where
  "nesting [] = 0"
| "nesting (node # nodes) =
     max (if truthy node \<and> typeof_object node \<and> Array_isArray (get_prop node (js ''children''))
          then Suc (nesting (children node)) else 0)
         (nesting nodes)"
  by pat_completeness auto
termination
  by (relation "measure (size_list size)")
     (auto simp: children_def dest: size_prop_children split: jsval.splits)

declare extractNodes.simps(2) [simp del] nesting.simps(2) [simp del]

text \<open>
  The array that the loop runs over at the top: \<open>nodes\<close> itself if it is an array, and
  the one-element array \<open>[nodes]\<close> if not. \<open>push\<close> is what one node adds to \<open>elements\<close>,
  and \<open>flat\<close> the elements of the nodes that carry a label or an identifier, in
  depth-first order.
\<close>

definition roots :: "jsval \<Rightarrow> jsval list" where
  "roots nodes = (if \<not> Array_isArray nodes then [nodes] else array_items nodes)"

definition push :: "jsval \<Rightarrow> element list \<Rightarrow> element list" where
  "push node elements =
     (if truthy (el_label (make_element node)) \<or> truthy (el_id (make_element node))
      then elements @ [make_element node] else elements)"

definition flat :: "jsval list \<Rightarrow> element list" where
  "flat nodes = map make_element (filter carries_label_or_id (concat (map depth_first nodes)))"

text \<open>Fixture nodes: a labelled leaf and an unlabelled container.\<close>

definition leaf :: "string \<Rightarrow> string \<Rightarrow> jsval" where
  "leaf t l = JObj [(js ''type'', JStr (js t)), (js ''AXLabel'', JStr (js l))]"

definition container :: "jsval list \<Rightarrow> jsval" where
  "container cs = JObj [(js ''type'', JStr (js ''Group'')), (js ''children'', JArr cs)]"

text \<open>A leaf inside \<open>n\<close> containers, one in the other.\<close>

fun nest :: "nat \<Rightarrow> jsval \<Rightarrow> jsval" where
  "nest 0 v = v"
| "nest (Suc n) v = container [nest n v]"

definition fixture_tree :: jsval where
  "fixture_tree =
     container [leaf ''Button'' ''Back'',
                container [leaf ''StaticText'' ''Title''],
                leaf ''Button'' ''Done'']"

section \<open>DeviceFormatter.sortDevices\<close>

text \<open>
  The device object that \<open>parseDevices\<close> builds. The simulator registry gives every
  device a string for its name, which \<open>a.name.localeCompare\<close> relies on.
\<close>

record device =
  dev_name :: jsstring
  dev_udid :: jsval
  dev_state :: jsval
  dev_runtime :: jsstring
  dev_isAvailable :: jsval
  dev_deviceType :: jsval

definition booted :: "device \<Rightarrow> bool" where
  "booted d = (dev_state d = JStr (js ''Booted''))"

definition compareDevices :: "(jsstring \<Rightarrow> jsstring \<Rightarrow> int) \<Rightarrow> device \<Rightarrow> device \<Rightarrow> int" where
  "compareDevices localeCompare a b =
     (if booted a \<and> \<not> booted b then - 1
      else if \<not> booted a \<and> booted b then 1
      else localeCompare (dev_name a) (dev_name b))"

text \<open>
  \<open>Array.prototype.sort\<close> with a comparator is stable, and for a consistent comparator
  the language fixes its result: the stable sorted arrangement. It is computed here by
  insertion; an element goes before the first one that it does not follow.
\<close>

fun place :: "('a \<Rightarrow> 'a \<Rightarrow> int) \<Rightarrow> 'a \<Rightarrow> 'a list \<Rightarrow> 'a list" where
  "place cmp x [] = [x]"
| "place cmp x (y # ys) = (if cmp x y \<le> 0 then x # y # ys else y # place cmp x ys)"

definition stable_sort :: "('a \<Rightarrow> 'a \<Rightarrow> int) \<Rightarrow> 'a list \<Rightarrow> 'a list" where
  "stable_sort cmp xs = foldr (place cmp) xs []"

text \<open>
  Arrays are objects in a store, and a variable holds a reference. \<open>[...devices]\<close>
  allocates a new array with the elements of \<open>devices\<close>; \<open>sort\<close> sorts the array it is
  called on in place and returns its reference.
\<close>

type_synonym ref = nat
type_synonym heap = "device list list"

definition spread :: "heap \<Rightarrow> ref \<Rightarrow> ref \<times> heap" where
  "spread h a = (length h, h @ [h ! a])"

definition array_sort :: "(device \<Rightarrow> device \<Rightarrow> int) \<Rightarrow> heap \<Rightarrow> ref \<Rightarrow> ref \<times> heap" where
  "array_sort cmp h a = (a, h[a := stable_sort cmp (h ! a)])"

definition sortDevices :: "(jsstring \<Rightarrow> jsstring \<Rightarrow> int) \<Rightarrow> heap \<Rightarrow> ref \<Rightarrow> ref \<times> heap" where
  "sortDevices localeCompare h devices =
     (case spread h devices of (copy, h1) \<Rightarrow> array_sort (compareDevices localeCompare) h1 copy)"

text \<open>
  \<open>String.prototype.localeCompare\<close> depends on the locale of the host and is a parameter.
  What the language asks of a comparator for \<open>sort\<close>: the signs of \<open>cmp a b\<close> and
  \<open>cmp b a\<close> are opposite, and the order is transitive.
\<close>

definition consistent :: "('a \<Rightarrow> 'a \<Rightarrow> int) \<Rightarrow> bool" where
  "consistent cmp =
     ((\<forall>a b. (cmp a b < 0) = (0 < cmp b a)) \<and>
      (\<forall>a b c. cmp a b \<le> 0 \<longrightarrow> cmp b c \<le> 0 \<longrightarrow> cmp a c \<le> 0))"

text \<open>A fixture comparator, by code units, and a fixture array.\<close>

fun compare_units :: "jsstring \<Rightarrow> jsstring \<Rightarrow> int" where
  "compare_units [] [] = 0"
| "compare_units [] (y # ys) = - 1"
| "compare_units (x # xs) [] = 1"
| "compare_units (x # xs) (y # ys) =
     (if x < y then - 1 else if y < x then 1 else compare_units xs ys)"

definition fixture_devices :: "device list" where
  "fixture_devices =
     [\<lparr>dev_name = js ''iPhone 15'', dev_udid = JNull, dev_state = JStr (js ''Shutdown''),
       dev_runtime = js ''iOS 17.0'', dev_isAvailable = JBool True, dev_deviceType = JNull\<rparr>,
      \<lparr>dev_name = js ''iPad Air'', dev_udid = JNull, dev_state = JStr (js ''Shutdown''),
       dev_runtime = js ''iOS 17.0'', dev_isAvailable = JBool True, dev_deviceType = JNull\<rparr>,
      \<lparr>dev_name = js ''iPhone SE'', dev_udid = JNull, dev_state = JStr (js ''Booted''),
       dev_runtime = js ''iOS 17.0'', dev_isAvailable = JBool True, dev_deviceType = JNull\<rparr>]"


section \<open>The host: processes and built-in functions\<close>

text \<open>
  \<open>child_process.spawnSync(file, args, options)\<close>. The options the program sets are the
  encoding (\<open>null\<close> asks for a \<open>Buffer\<close>), the buffer limit (when given) and the shell flag.
\<close>

record spawn_options =
  encoding :: "jsstring option"
  maxBuffer :: "nat option"
  shell :: bool

record spawn_result =
  error :: "exn option"
  status :: "int option"
  stdout :: jsstring
  stderr :: jsstring

type_synonym spawn_call = "jsstring \<times> jsstring list \<times> spawn_options"

text \<open>
  The processes are outside the program: \<open>spawn\<close> gives, for the calls made so far and the
  next call, what \<open>spawnSync\<close> does: it throws, or it returns a result. The other fields
  are the built-in functions whose results the program only passes on: \<open>Number(v)\<close> on a
  string, an array or an object, \<open>String(v)\<close> on a number, an array or an object,
  \<open>JSON.parse\<close>,
  \<open>JSON.stringify(v, null, 2)\<close>, \<open>Buffer.toString("base64")\<close>; and the two presentation
  pipelines of the tools, on data of any shape: \<open>formatDevices(sortDevices(parseDevices(
  data, availableOnly)))\<close> and \<open>formatSummary(elements)\<close>, which return the text or throw.
  \<open>call_stack\<close> is the number of nested activations of \<open>extractElements\<close> for which the call
  stack has room when \<open>DescribeUITool.execute\<close> calls it.
\<close>

record host =
  spawn :: "spawn_call list \<Rightarrow> spawn_call \<Rightarrow> exn + spawn_result"
  to_number :: "jsval \<Rightarrow> jsnum"
  to_string :: "jsval \<Rightarrow> jsstring"
  json_parse :: "jsstring \<Rightarrow> exn + jsval"
  json_stringify :: "jsval \<Rightarrow> jsstring"
  base64 :: "jsstring \<Rightarrow> jsstring"
  render_devices :: "jsval \<Rightarrow> jsval \<Rightarrow> exn + jsstring"
  formatSummary :: "element list \<Rightarrow> exn + jsstring"
  call_stack :: nat

text \<open>
  A computation of the program: from the list of the \<open>spawnSync\<close> calls made so far to a
  result, or the exception thrown, and the calls made by then.
\<close>

type_synonym 'a run = "spawn_call list \<Rightarrow> (exn + 'a) \<times> spawn_call list"

text \<open>
  \<open>spawnSync\<close> checks that \<open>file\<close> is a string before anything else, and throws a
  \<open>TypeError\<close> if it is not: no process is started then.
\<close>

definition spawnSync :: "host \<Rightarrow> jsval \<Rightarrow> jsstring list \<Rightarrow> spawn_options \<Rightarrow> spawn_result run" where
  "spawnSync h file args opts calls =
     (case file of
        JStr path \<Rightarrow> (spawn h calls (path, args, opts), calls @ [(path, args, opts)])
      | _ \<Rightarrow> (Inl (TypeError (js ''The file argument must be of type string'')), calls))"

definition Number :: "host \<Rightarrow> jsval \<Rightarrow> jsnum" where
  "Number h v =
     (case v of
        JNum n \<Rightarrow> n
      | JUndefined \<Rightarrow> NaN
      | JNull \<Rightarrow> Finite 0
      | JBool b \<Rightarrow> Finite (if b then 1 else 0)
      | _ \<Rightarrow> to_number h v)"

definition String_num :: "host \<Rightarrow> jsnum \<Rightarrow> jsstring" where
  \<comment> \<open>\<open>String(n)\<close> on a number\<close>
  "String_num h n = to_string h (JNum n)"

definition template :: "host \<Rightarrow> jsval \<Rightarrow> jsstring" where
  \<comment> \<open>a value in a template literal\<close>
  "template h v =
     (case v of
        JStr s \<Rightarrow> s
      | JUndefined \<Rightarrow> js ''undefined''
      | JNull \<Rightarrow> js ''null''
      | JBool b \<Rightarrow> (if b then js ''true'' else js ''false'')
      | _ \<Rightarrow> to_string h v)"

section \<open>CommandExecutor (src/README.md, third part)\<close>

definition ALLOWED_COMMANDS :: "(jsstring \<times> jsstring) list" where
  "ALLOWED_COMMANDS =
     [(js ''axe'', js ''/opt/homebrew/bin/axe''), (js ''xcrun'', js ''/usr/bin/xcrun'')]"

text \<open>
  \<open>ALLOWED_COMMANDS\<close> is an object literal, so its prototype is \<open>Object.prototype\<close>, and
  the operator \<open>in\<close> looks through the prototype chain. These are the properties of
  \<open>Object.prototype\<close>; \<open>__proto__\<close> is an object there and the others are functions.
\<close>

definition Object_prototype :: "jsstring list" where
  "Object_prototype =
     [js ''constructor'', js ''__defineGetter__'', js ''__defineSetter__'',
      js ''hasOwnProperty'', js ''__lookupGetter__'', js ''__lookupSetter__'',
      js ''isPrototypeOf'', js ''propertyIsEnumerable'', js ''toString'', js ''valueOf'',
      js ''__proto__'', js ''toLocaleString'']"

definition in_ALLOWED_COMMANDS :: "jsstring \<Rightarrow> bool" where
  \<comment> \<open>\<open>k in ALLOWED_COMMANDS\<close>\<close>
  "in_ALLOWED_COMMANDS k = (k \<in> set (map fst ALLOWED_COMMANDS) \<or> k \<in> set Object_prototype)"

definition get_ALLOWED_COMMANDS :: "jsstring \<Rightarrow> jsval" where
  \<comment> \<open>\<open>ALLOWED_COMMANDS[k]\<close>\<close>
  "get_ALLOWED_COMMANDS k =
     (case map_of ALLOWED_COMMANDS k of
        Some path \<Rightarrow> JStr path
      | None \<Rightarrow>
          if k = js ''__proto__'' then JObj []
          else if k \<in> set Object_prototype then JFunction
          else JUndefined)"

definition element0 :: "jsstring list \<Rightarrow> jsstring" where
  \<comment> \<open>\<open>command[0]\<close> as a property key and in a template: \<open>undefined\<close> reads \<open>"undefined"\<close>\<close>
  "element0 command = (case command of [] \<Rightarrow> js ''undefined'' | c # _ \<Rightarrow> c)"

definition status_message :: "host \<Rightarrow> spawn_options \<Rightarrow> spawn_result \<Rightarrow> jsstring" where
  \<comment> \<open>\<open>result.stderr ? result.stderr.toString() : ...\<close>, where an empty string is
      falsy and every \<open>Buffer\<close> is truthy\<close>
  "status_message h opts result =
     (if stderr result \<noteq> [] \<or> encoding opts = None then stderr result
      else js ''Command failed with status '' @
           template h (case status result of None \<Rightarrow> JNull
                        | Some n \<Rightarrow> JNum (Finite (of_int n))))"

definition check_result :: "host \<Rightarrow> spawn_options \<Rightarrow> (exn + spawn_result) \<Rightarrow> exn + spawn_result" where
  \<comment> \<open>the two tests after \<open>spawnSync\<close>, shared by \<open>execute\<close> and \<open>executeSafeCommand\<close>\<close>
  "check_result h opts r =
     (case r of
        Inl e \<Rightarrow> Inl e
      | Inr result \<Rightarrow>
          (case error result of
             Some e \<Rightarrow> Inl e
           | None \<Rightarrow>
               if status result \<noteq> Some 0 then Inl (Error (status_message h opts result))
               else Inr result))"

text \<open>
  The options of a call of \<open>execute\<close>: each field is given or not, and a field that is
  given overrides the default (\<open>{...defaultOptions, ...options}\<close>).
\<close>

record exec_options =
  opt_encoding :: "jsstring option option"
  opt_maxBuffer :: "nat option"

definition merge_options :: "exec_options \<Rightarrow> spawn_options" where
  "merge_options options =
     \<lparr>encoding = (case opt_encoding options of None \<Rightarrow> Some (js ''utf8'') | Some e \<Rightarrow> e),
      maxBuffer = (case opt_maxBuffer options of None \<Rightarrow> Some (10 * 1024 * 1024) | Some m \<Rightarrow> Some m),
      shell = False\<rparr>"

definition execute :: "host \<Rightarrow> jsstring list \<Rightarrow> exec_options \<Rightarrow> spawn_result run" where
  "execute h command options calls =
     (let commandName = element0 command in
      if \<not> in_ALLOWED_COMMANDS commandName then
        (Inl (Error (js ''Command not allowed: '' @ commandName)), calls)
      else
        let fullPath = get_ALLOWED_COMMANDS commandName;
            opts = merge_options options
        in case spawnSync h fullPath (tl command) opts calls of
             (r, calls') \<Rightarrow> (check_result h opts r, calls'))"

definition executeSafeCommand :: "host \<Rightarrow> jsstring \<Rightarrow> jsstring list \<Rightarrow> jsstring run" where
  "executeSafeCommand h command args calls =
     (if \<not> in_ALLOWED_COMMANDS command then
        (Inl (Error (js ''Command not allowed: '' @ command)), calls)
      else
        let fullPath = get_ALLOWED_COMMANDS command;
            opts = \<lparr>encoding = Some (js ''utf8''), maxBuffer = None, shell = False\<rparr>
        in case spawnSync h fullPath args opts calls of
             (r, calls') \<Rightarrow> (map_sum id stdout (check_result h opts r), calls'))"

section \<open>InputValidator: identifiers, coordinates and durations\<close>

definition is_safe_id_char :: "16 word \<Rightarrow> bool" where
  \<comment> \<open>the class of \<open>SAFE_ID_PATTERN\<close>: letters, digits, underscore, hyphen, dot, colon\<close>
  "is_safe_id_char c =
     ((0x61 \<le> c \<and> c \<le> 0x7A) \<or> (0x41 \<le> c \<and> c \<le> 0x5A) \<or> is_digit c \<or>
      c = 0x5F \<or> c = hyphen \<or> c = 0x2E \<or> c = 0x3A)"

definition SAFE_ID_PATTERN_test :: "jsstring \<Rightarrow> bool" where
  "SAFE_ID_PATTERN_test s = (s \<noteq> [] \<and> list_all is_safe_id_char s)"

definition validateAccessibilityId :: "jsval \<Rightarrow> exn + jsstring" where
  "validateAccessibilityId i =
     (case i of
        JStr s \<Rightarrow>
          if length s = 0 then Inl (Error (js ''Accessibility ID cannot be empty''))
          else if length s > 256 then
            Inl (Error (js ''Accessibility ID is too long (max 256 characters)''))
          else if \<not> SAFE_ID_PATTERN_test s then
            Inl (Error (js (''Accessibility ID contains invalid characters. Only alphanumeric, ''
              @ ''hyphens, underscores, dots, and colons are allowed.'')))
          else Inr s
      | _ \<Rightarrow> Inl (Error (js ''Accessibility ID must be a string'')))"

definition validateCoordinate :: "host \<Rightarrow> jsval \<Rightarrow> jsstring \<Rightarrow> rat \<Rightarrow> rat \<Rightarrow> exn + jsnum" where
  "validateCoordinate h v nm mn mx =
     (case Number h v of
        Finite num \<Rightarrow>
          if num < mn \<or> num > mx then
            Inl (Error (nm @ js '' must be between '' @ String_num h (Finite mn) @ js '' and ''
              @ String_num h (Finite mx)))
          else Inr (Finite num)
      | _ \<Rightarrow> Inl (Error (nm @ js '' must be a valid number'')))"

definition validateDuration :: "host \<Rightarrow> jsval \<Rightarrow> exn + jsnum" where
  "validateDuration h v =
     (case Number h v of
        Finite num \<Rightarrow>
          if num < 0 \<or> num > 60 then
            Inl (Error (js ''Duration must be between 0 and 60 seconds''))
          else Inr (Finite num)
      | _ \<Rightarrow> Inl (Error (js ''Duration must be a valid number'')))"

section \<open>SimulatorService (src/services/SimulatorService.js)\<close>

fun includes_str :: "jsstring \<Rightarrow> jsstring \<Rightarrow> bool" where
  \<comment> \<open>the method \<open>includes\<close> of a string: \<open>p\<close> occurs in \<open>s\<close>\<close>
  "includes_str [] p = (p = [])"
| "includes_str (c # s) p = (take (length p) (c # s) = p \<or> includes_str s p)"

definition list_booted :: "jsstring list" where
  "list_booted = [js ''simctl'', js ''list'', js ''devices'', js ''booted'']"

definition isSimulatorBooted :: "host \<Rightarrow> spawn_call list \<Rightarrow> bool \<times> spawn_call list" where
  "isSimulatorBooted h calls =
     (case executeSafeCommand h (js ''xcrun'') list_booted calls of
        (Inr devices, calls') \<Rightarrow> (includes_str devices (js ''Booted''), calls')
      | (Inl e, calls') \<Rightarrow> (False, calls'))"



text \<open>
  \<open>output.match(...)\<close> with the UDID pattern in upper case, not anchored: the leftmost
  match, whose text is 36 code units long.
\<close>

fun search_udid :: "jsstring \<Rightarrow> jsstring option" where
  "search_udid [] = None"
| "search_udid (c # s) =
     (case match_udid is_hex_upper (c # s) of
        Some rest \<Rightarrow> Some (take 36 (c # s))
      | None \<Rightarrow> search_udid s)"

definition getBootedUDID :: "host \<Rightarrow> spawn_call list \<Rightarrow> jsstring option \<times> spawn_call list" where
  "getBootedUDID h calls =
     (case executeSafeCommand h (js ''xcrun'') list_booted calls of
        (Inr output, calls') \<Rightarrow> (search_udid output, calls')
      | (Inl e, calls') \<Rightarrow> (None, calls'))"

definition utf8 :: exec_options where
  "utf8 = \<lparr>opt_encoding = Some (Some (js ''utf8'')), opt_maxBuffer = None\<rparr>"

definition stdout_or :: "jsstring \<Rightarrow> (exn + spawn_result) \<Rightarrow> exn + jsstring" where
  \<comment> \<open>\<open>return result.stdout || d\<close>\<close>
  "stdout_or d r = map_sum id (\<lambda>result. if stdout result \<noteq> [] then stdout result else d) r"

text \<open>
  The head shared by \<open>tap\<close>, \<open>swipe\<close>, \<open>gesture\<close>, \<open>typeText\<close> and \<open>describeUI\<close>:
  \<open>getBootedUDID\<close> and the test \<open>if (!udid) throw ...\<close>.
\<close>

definition bootedUDID :: "host \<Rightarrow> jsstring run" where
  "bootedUDID h calls =
     (case getBootedUDID h calls of
        (None, calls') \<Rightarrow> (Inl (Error (js ''No simulator is currently booted'')), calls')
      | (Some udid, calls') \<Rightarrow>
          if udid = [] then (Inl (Error (js ''No simulator is currently booted'')), calls')
          else (Inr udid, calls'))"

record tap_options =
  tap_x :: jsval
  tap_y :: jsval
  tap_id :: jsval
  tap_label :: jsval

text \<open>The \<open>if\<close> chain of \<open>tap\<close>: the arguments pushed after \<open>--udid\<close>, or the error.\<close>

definition tap_target :: "host \<Rightarrow> tap_options \<Rightarrow> exn + jsstring list" where
  "tap_target h options =
     (if tap_x options \<noteq> JUndefined \<and> tap_y options \<noteq> JUndefined then
        (case validateCoordinate h (tap_x options) (js ''x'') 0 5000 of
           Inl e \<Rightarrow> Inl e
         | Inr x \<Rightarrow>
             (case validateCoordinate h (tap_y options) (js ''y'') 0 5000 of
                Inl e \<Rightarrow> Inl e
              | Inr y \<Rightarrow> Inr [js ''-x'', String_num h x, js ''-y'', String_num h y]))
      else if truthy (tap_id options) then
        (case validateAccessibilityId (tap_id options) of
           Inl e \<Rightarrow> Inl e
         | Inr validatedId \<Rightarrow> Inr [js ''--id'', validatedId])
      else if truthy (tap_label options) then
        (case validateAccessibilityLabel (tap_label options) of
           Inl e \<Rightarrow> Inl e
         | Inr validatedLabel \<Rightarrow> Inr [js ''--label'', validatedLabel])
      else
        Inl (Error (js ''Must provide either coordinates (x, y), accessibility id, or label'')))"

definition tap :: "host \<Rightarrow> tap_options \<Rightarrow> jsstring run" where
  "tap h options calls =
     (case bootedUDID h calls of
        (Inl e, calls1) \<Rightarrow> (Inl e, calls1)
      | (Inr udid, calls1) \<Rightarrow>
          (case validateUDID (JStr udid) of
             Inl e \<Rightarrow> (Inl e, calls1)
           | Inr validatedUdid \<Rightarrow>
               (case tap_target h options of
                  Inl e \<Rightarrow> (Inl e, calls1)
                | Inr target \<Rightarrow>
                    (case execute h ([js ''axe'', js ''tap'', js ''--udid'', validatedUdid] @ target)
                            utf8 calls1 of
                       (r, calls2) \<Rightarrow> (stdout_or (js ''Tap completed'') r, calls2)))))"

record gesture_options =
  duration :: jsval

record swipe_options = gesture_options +
  startX :: jsval
  startY :: jsval
  endX :: jsval
  endY :: jsval

definition duration_args :: "host \<Rightarrow> jsval \<Rightarrow> exn + jsstring list" where
  \<comment> \<open>\<open>if (options.duration !== undefined) { ... args.push("--duration", String(duration)) }\<close>\<close>
  "duration_args h d =
     (if d \<noteq> JUndefined then
        (case validateDuration h d of
           Inl e \<Rightarrow> Inl e
         | Inr n \<Rightarrow> Inr [js ''--duration'', String_num h n])
      else Inr [])"

definition swipe :: "host \<Rightarrow> swipe_options \<Rightarrow> jsstring run" where
  "swipe h options calls =
     (case bootedUDID h calls of
        (Inl e, calls1) \<Rightarrow> (Inl e, calls1)
      | (Inr udid, calls1) \<Rightarrow>
          (case validateUDID (JStr udid) of Inl e \<Rightarrow> (Inl e, calls1) | Inr validatedUdid \<Rightarrow>
          (case validateCoordinate h (startX options) (js ''startX'') 0 5000 of
             Inl e \<Rightarrow> (Inl e, calls1) | Inr sx \<Rightarrow>
          (case validateCoordinate h (startY options) (js ''startY'') 0 5000 of
             Inl e \<Rightarrow> (Inl e, calls1) | Inr sy \<Rightarrow>
          (case validateCoordinate h (endX options) (js ''endX'') 0 5000 of
             Inl e \<Rightarrow> (Inl e, calls1) | Inr ex \<Rightarrow>
          (case validateCoordinate h (endY options) (js ''endY'') 0 5000 of
             Inl e \<Rightarrow> (Inl e, calls1) | Inr ey \<Rightarrow>
          (case duration_args h (duration options) of
             Inl e \<Rightarrow> (Inl e, calls1) | Inr dur \<Rightarrow>
          (case execute h
                  ([js ''axe'', js ''swipe'', js ''--start-x'', String_num h sx,
                    js ''--start-y'', String_num h sy, js ''--end-x'', String_num h ex,
                    js ''--end-y'', String_num h ey, js ''--udid'', validatedUdid] @ dur)
                  utf8 calls1 of
             (r, calls2) \<Rightarrow> (stdout_or (js ''Swipe completed'') r, calls2)))))))))"

definition validPresets :: "jsstring list" where
  "validPresets =
     [js ''scroll-up'', js ''scroll-down'', js ''scroll-left'', js ''scroll-right'',
      js ''swipe-from-left-edge'', js ''swipe-from-right-edge'', js ''swipe-from-top-edge'',
      js ''swipe-from-bottom-edge'']"

fun join :: "jsstring \<Rightarrow> jsstring list \<Rightarrow> jsstring" where
  "join sep [] = []"
| "join sep [s] = s"
| "join sep (s # t) = s @ sep @ join sep t"

definition valid_preset :: "jsval \<Rightarrow> jsstring option" where
  \<comment> \<open>the method \<open>includes\<close> of \<open>validPresets\<close>: only a string equal to an entry is included\<close>
  "valid_preset preset =
     (case preset of JStr p \<Rightarrow> if p \<in> set validPresets then Some p else None | _ \<Rightarrow> None)"

definition gesture :: "host \<Rightarrow> jsval \<Rightarrow> gesture_options \<Rightarrow> jsstring run" where
  "gesture h preset options calls =
     (case bootedUDID h calls of
        (Inl e, calls1) \<Rightarrow> (Inl e, calls1)
      | (Inr udid, calls1) \<Rightarrow>
          (case valid_preset preset of
             None \<Rightarrow>
               (Inl (Error (js ''Invalid gesture preset. Valid options: ''
                  @ join (js '', '') validPresets)), calls1)
           | Some p \<Rightarrow>
               (case validateUDID (JStr udid) of Inl e \<Rightarrow> (Inl e, calls1) | Inr validatedUdid \<Rightarrow>
               (case duration_args h (duration options) of
                  Inl e \<Rightarrow> (Inl e, calls1) | Inr dur \<Rightarrow>
               (case execute h ([js ''axe'', js ''gesture'', p, js ''--udid'', validatedUdid] @ dur)
                       utf8 calls1 of
                  (r, calls2) \<Rightarrow>
                    (stdout_or (js ''Gesture '' @ p @ js '' completed'') r, calls2))))))"



section \<open>BaseTool and the tools (src/tools, src/unnamed/part_002)\<close>

datatype content_part = TextPart jsstring | ImagePart jsstring jsstring

record response =
  content :: "content_part list"
  isError :: "bool option"

definition createErrorResponse :: "exn \<Rightarrow> jsstring \<Rightarrow> response" where
  "createErrorResponse err context =
     \<lparr>content = [TextPart (context @ js '': '' @ message err)], isError = Some True\<rparr>"

definition createTextResponse :: "jsstring \<Rightarrow> response" where
  "createTextResponse text = \<lparr>content = [TextPart text], isError = None\<rparr>"


text \<open>
  \<open>try { ... } catch (error) { return this.createErrorResponse(error, context) }\<close>, the
  whole body of every \<open>execute\<close>.
\<close>

definition catching :: "jsstring \<Rightarrow> response run \<Rightarrow> response run" where
  "catching context body calls =
     (case body calls of
        (Inr r, calls') \<Rightarrow> (Inr r, calls')
      | (Inl err, calls') \<Rightarrow> (Inr (createErrorResponse err context), calls'))"

definition not_running :: "jsstring \<Rightarrow> response" where
  "not_running context =
     createErrorResponse (Error (js ''No iOS Simulator is currently running'')) context"

definition check_mark :: jsstring where
  \<comment> \<open>the check mark U+2713 and a space\<close>
  "check_mark = [0x2713, 0x20]"

definition quote :: jsstring where
  "quote = [0x22]"




definition TapTool_execute :: "host \<Rightarrow> jsval \<Rightarrow> response run" where
  "TapTool_execute h args =
     catching (js ''Failed to tap'') (\<lambda>calls.
       case isSimulatorBooted h calls of
         (b, calls1) \<Rightarrow>
           if \<not> b then (Inr (not_running (js ''Please launch a simulator first'')), calls1)
           else
             let ax = get_prop args (js ''x''); ay = get_prop args (js ''y'');
                 aid = get_prop args (js ''id''); alabel = get_prop args (js ''label'');
                 hasCoordinates = (ax \<noteq> JUndefined \<and> ay \<noteq> JUndefined);
                 hasId = (aid \<noteq> JUndefined);
                 hasLabel = (alabel \<noteq> JUndefined)
             in
               if \<not> hasCoordinates \<and> \<not> hasId \<and> \<not> hasLabel then
                 (Inr (createErrorResponse (Error (js ''Missing required arguments''))
                    (js ''Provide either coordinates (x, y), accessibility id, or label'')), calls1)
               else
                 (case tap h \<lparr>tap_x = ax, tap_y = ay, tap_id = aid, tap_label = alabel\<rparr> calls1 of
                    (Inl e, calls2) \<Rightarrow> (Inl e, calls2)
                  | (Inr result, calls2) \<Rightarrow>
                      let description =
                        (if hasCoordinates then
                           js ''Tapped at coordinates ('' @ template h ax @ js '', '' @ template h ay
                             @ js '')''
                         else if hasId then
                           js ''Tapped element with id '' @ quote @ template h aid @ quote
                         else
                           js ''Tapped element with label '' @ quote @ template h alabel @ quote)
                      in (Inr (createTextResponse (check_mark @ description)), calls2)))"






text \<open>The two shapes of a response: the error shape, and a success.\<close>

definition error_shape :: "response \<Rightarrow> bool" where
  "error_shape r =
     (\<exists>context msg. r = \<lparr>content = [TextPart (context @ js '': '' @ msg)], isError = Some True\<rparr>)"


section \<open>A fixture host\<close>

text \<open>
  One simulator is booted: \<open>xcrun\<close> prints a line with its UDID, and every other command
  exits with status 0 and prints nothing. Numbers print in decimal.
\<close>

definition fixture_udid :: jsstring where
  "fixture_udid = js ''A1B2C3D4-E5F6-7A8B-9C0D-123456ABCDEF''"

definition fixture_spawn :: "spawn_call list \<Rightarrow> spawn_call \<Rightarrow> exn + spawn_result" where
  "fixture_spawn calls c =
     (if fst c = js ''/usr/bin/xcrun'' then
        Inr \<lparr>error = None, status = Some 0,
             stdout = js ''    iPhone 15 ('' @ fixture_udid @ js '') (Booted)'', stderr = []\<rparr>
      else Inr \<lparr>error = None, status = Some 0, stdout = [], stderr = []\<rparr>)"

function decimal :: "nat \<Rightarrow> jsstring" where
  "decimal n = (if n < 10 then [of_nat (48 + n)] else decimal (n div 10) @ [of_nat (48 + n mod 10)])"
  by pat_completeness auto
termination
  by (relation "measure id") auto

definition fixture_to_string :: "jsval \<Rightarrow> jsstring" where
  "fixture_to_string v =
     (case v of JNum (Finite r) \<Rightarrow> decimal (nat \<lfloor>r\<rfloor>) | _ \<Rightarrow> js ''[object Object]'')"

definition fixture_host :: host where
  "fixture_host =
     \<lparr>spawn = fixture_spawn, to_number = (\<lambda>v. NaN), to_string = fixture_to_string,
      json_parse = (\<lambda>s. Inl (SyntaxError (js ''Unexpected end of JSON input''))),
      json_stringify = (\<lambda>v. js ''null''), base64 = (\<lambda>b. b),
      render_devices = (\<lambda>d a. Inr []), formatSummary = (\<lambda>es. Inr []), call_stack = 10000\<rparr>"

section \<open>Calls that the service makes\<close>

text \<open>
  The call with which \<open>isSimulatorBooted\<close> and \<open>getBootedUDID\<close> ask for the booted
  devices, and a call of \<open>axe\<close> as \<open>execute\<close> makes it with the option
  \<open>{ encoding: "utf8" }\<close>.
\<close>

definition probe :: spawn_call where
  "probe = (js ''/usr/bin/xcrun'', list_booted,
            \<lparr>encoding = Some (js ''utf8''), maxBuffer = None, shell = False\<rparr>)"

definition axe_call :: "jsstring list \<Rightarrow> spawn_call" where
  "axe_call args = (js ''/opt/homebrew/bin/axe'', args, merge_options utf8)"

text \<open>A fixture request that supplies coordinates, an identifier and a label.\<close>

definition fixture_tap :: tap_options where
  "fixture_tap =
     \<lparr>tap_x = JNum (Finite 100), tap_y = JNum (Finite 200),
      tap_id = JStr (js ''loginButton''), tap_label = JStr (js ''Log in'')\<rparr>"



section \<open>What the tools pass on, and more fixture hosts\<close>





definition failed :: "jsstring \<Rightarrow> exn \<Rightarrow> spawn_call list \<Rightarrow> (exn + response) \<times> spawn_call list" where
  "failed ctx err calls = (Inr (createErrorResponse err ctx), calls)"

text \<open>
  Hosts on which operations fail: one where only the query for the booted devices
  succeeds and every other command exits with status 1, one where every command does, one
  whose \<open>JSON.parse\<close> gives the fixture tree, and one whose pipeline for the device list
  throws. Then argument objects for the tools.
\<close>

definition booted_result :: spawn_result where
  "booted_result =
     \<lparr>error = None, status = Some 0,
      stdout = js ''    iPhone 15 ('' @ fixture_udid @ js '') (Booted)'', stderr = []\<rparr>"

definition boom_result :: spawn_result where
  "boom_result = \<lparr>error = None, status = Some 1, stdout = [], stderr = js ''boom''\<rparr>"

definition failing_spawn :: "spawn_call list \<Rightarrow> spawn_call \<Rightarrow> exn + spawn_result" where
  "failing_spawn calls c = (if fst (snd c) = list_booted then Inr booted_result else Inr boom_result)"

definition failing_host :: host where
  "failing_host = fixture_host\<lparr>spawn := failing_spawn\<rparr>"

definition dead_host :: host where
  "dead_host = fixture_host\<lparr>spawn := (\<lambda>calls c. Inr boom_result)\<rparr>"

definition tree_host :: host where
  "tree_host = fixture_host\<lparr>json_parse := (\<lambda>s. Inr fixture_tree)\<rparr>"






section \<open>Properties of the validators\<close>

lemma validateAccessibilityLabel_rejects:
  "SHELL_METACHARACTERS_test s \<Longrightarrow> isl (validateAccessibilityLabel (JStr s))"
  by (simp add: validateAccessibilityLabel_def)

lemma validateTypeText_rejects:
  "SHELL_METACHARACTERS_test s \<Longrightarrow> isl (validateTypeText (JStr s))"
  by (simp add: validateTypeText_def)

text \<open>
  C2. A string with at least one character of the denylist is rejected by
  \<open>validateAccessibilityLabel\<close> and by \<open>validateTypeText\<close>; a non-empty string without
  any such character and of at most 512 (for labels) or 10000 (for text) code units is
  accepted and returned as it is.
\<close>

theorem validators_denylist:
  "((\<exists>c \<in> set s. c \<in> set SHELL_METACHARACTERS) \<longrightarrow>
      isl (validateAccessibilityLabel (JStr s)) \<and> isl (validateTypeText (JStr s))) \<and>
   (s \<noteq> [] \<and> (\<forall>c \<in> set s. c \<notin> set SHELL_METACHARACTERS) \<and> length s \<le> 512 \<longrightarrow>
      validateAccessibilityLabel (JStr s) = Inr s) \<and>
   (s \<noteq> [] \<and> (\<forall>c \<in> set s. c \<notin> set SHELL_METACHARACTERS) \<and> length s \<le> 10000 \<longrightarrow>
      validateTypeText (JStr s) = Inr s)"
proof (intro conjI impI)
  assume "\<exists>c \<in> set s. c \<in> set SHELL_METACHARACTERS"
  then have t: "SHELL_METACHARACTERS_test s"
    by (simp add: SHELL_METACHARACTERS_test_def list_ex_iff)
  show "isl (validateAccessibilityLabel (JStr s))"
    using t by (rule validateAccessibilityLabel_rejects)
  show "isl (validateTypeText (JStr s))"
    using t by (rule validateTypeText_rejects)
next
  assume "s \<noteq> [] \<and> (\<forall>c \<in> set s. c \<notin> set SHELL_METACHARACTERS) \<and> length s \<le> 512"
  then show "validateAccessibilityLabel (JStr s) = Inr s"
    by (simp add: validateAccessibilityLabel_def SHELL_METACHARACTERS_test_def list_ex_iff)
next
  assume "s \<noteq> [] \<and> (\<forall>c \<in> set s. c \<notin> set SHELL_METACHARACTERS) \<and> length s \<le> 10000"
  then show "validateTypeText (JStr s) = Inr s"
    by (simp add: validateTypeText_def SHELL_METACHARACTERS_test_def list_ex_iff)
qed

theorem validators_denylist_witness:
  "isl (validateAccessibilityLabel (JStr (js ''a;b''))) \<and>
   isl (validateTypeText (JStr (js ''a;b''))) \<and>
   validateAccessibilityLabel (JStr (js ''Sign in'')) = Inr (js ''Sign in'') \<and>
   validateTypeText (JStr (js ''Sign in'')) = Inr (js ''Sign in'')"
  using validators_denylist [of "js ''a;b''"] validators_denylist [of "js ''Sign in''"]
  by (simp add: js_def SHELL_METACHARACTERS_def)

lemma match_class_append:
  "length g = n \<Longrightarrow> list_all P g \<Longrightarrow> match_class P n (g @ r) = Some r"
  by (induction P n g rule: match_class.induct) auto

lemma match_class_SomeD:
  "match_class P n s = Some r \<Longrightarrow> \<exists>g. s = g @ r \<and> length g = n \<and> list_all P g"
proof (induction P n s rule: match_class.induct)
  case (3 P n c s)
  then have "P c" and "match_class P n s = Some r" by (auto split: if_splits)
  with 3 obtain g where "s = g @ r" "length g = n" "list_all P g" by blast
  then have "c # s = (c # g) @ r \<and> length (c # g) = Suc n \<and> list_all P (c # g)"
    using \<open>P c\<close> by simp
  then show ?case by blast
qed auto

lemma match_char_Some_iff: "match_char d s = Some r \<longleftrightarrow> s = d # r"
  by (cases s) auto

lemma udid_grouped_imp_match:
  assumes "s = g1 @ [hyphen] @ g2 @ [hyphen] @ g3 @ [hyphen] @ g4 @ [hyphen] @ g5"
    and "length g1 = 8" "length g2 = 4" "length g3 = 4" "length g4 = 4" "length g5 = 12"
    and "list_all P (g1 @ g2 @ g3 @ g4 @ g5)"
  shows "match_udid P s = Some []"
proof -
  have "match_class P 12 (g5 @ []) = Some []"
    using assms by (intro match_class_append) auto
  then show ?thesis
    using assms by (simp add: match_udid_def match_class_append)
qed

lemma match_udid_SomeD:
  assumes "match_udid P s = Some r"
  shows "\<exists>g1 g2 g3 g4 g5.
        s = (g1 @ [hyphen] @ g2 @ [hyphen] @ g3 @ [hyphen] @ g4 @ [hyphen] @ g5) @ r \<and>
        length g1 = 8 \<and> length g2 = 4 \<and> length g3 = 4 \<and> length g4 = 4 \<and> length g5 = 12 \<and>
        list_all P (g1 @ g2 @ g3 @ g4 @ g5)"
proof -
  from assms obtain s1 s2 s3 s4 s5 s6 s7 s8 where
    m: "match_class P 8 s = Some s1" "match_char hyphen s1 = Some s2"
       "match_class P 4 s2 = Some s3" "match_char hyphen s3 = Some s4"
       "match_class P 4 s4 = Some s5" "match_char hyphen s5 = Some s6"
       "match_class P 4 s6 = Some s7" "match_char hyphen s7 = Some s8"
       "match_class P 12 s8 = Some r"
    unfolding match_udid_def by (auto simp: bind_eq_Some_conv)
  from m(1) obtain g1 where g1: "s = g1 @ s1" "length g1 = 8" "list_all P g1"
    by (blast dest: match_class_SomeD)
  from m(3) obtain g2 where g2: "s2 = g2 @ s3" "length g2 = 4" "list_all P g2"
    by (blast dest: match_class_SomeD)
  from m(5) obtain g3 where g3: "s4 = g3 @ s5" "length g3 = 4" "list_all P g3"
    by (blast dest: match_class_SomeD)
  from m(7) obtain g4 where g4: "s6 = g4 @ s7" "length g4 = 4" "list_all P g4"
    by (blast dest: match_class_SomeD)
  from m(9) obtain g5 where g5: "s8 = g5 @ r" "length g5 = 12" "list_all P g5"
    by (blast dest: match_class_SomeD)
  have "s = (g1 @ [hyphen] @ g2 @ [hyphen] @ g3 @ [hyphen] @ g4 @ [hyphen] @ g5) @ r"
    using g1(1) g2(1) g3(1) g4(1) g5(1) m(2,4,6,8) by (simp add: match_char_Some_iff)
  moreover have "list_all P (g1 @ g2 @ g3 @ g4 @ g5)"
    using g1 g2 g3 g4 g5 by simp
  ultimately show ?thesis
    using g1(2) g2(2) g3(2) g4(2) g5(2) by blast
qed

lemma match_udid_imp_grouped:
  assumes "match_udid P s = Some []"
  shows "\<exists>g1 g2 g3 g4 g5.
        s = g1 @ [hyphen] @ g2 @ [hyphen] @ g3 @ [hyphen] @ g4 @ [hyphen] @ g5 \<and>
        length g1 = 8 \<and> length g2 = 4 \<and> length g3 = 4 \<and> length g4 = 4 \<and> length g5 = 12 \<and>
        list_all P (g1 @ g2 @ g3 @ g4 @ g5)"
  using match_udid_SomeD [OF assms] by simp

lemma udidPattern_test_iff: "udidPattern_test s \<longleftrightarrow> udid_grouped s"
  unfolding udidPattern_test_def udid_grouped_def
  using match_udid_imp_grouped [of is_hex_i s] udid_grouped_imp_match [of s _ _ _ _ _ is_hex_i]
  by blast

lemma upper_unit_hex: "is_hex_i c \<Longrightarrow> is_hex_upper (upper_unit c)"
  unfolding is_hex_i_def is_hex_upper_def is_digit_def upper_unit_def
  by (auto simp: word_le_nat_alt unat_sub) 

lemma upper_unit_hyphen: "upper_unit hyphen = hyphen"
  by (simp add: upper_unit_def hyphen_def)


lemma toUpperCase_map: "toUpperCase s = map upper_unit s"
  by (simp add: toUpperCase_def)

lemma upper_unit_idem: "upper_unit (upper_unit c) = upper_unit c"
  unfolding upper_unit_def by (auto simp: word_le_nat_alt unat_sub)

lemma hex_upper_i: "is_hex_upper c \<Longrightarrow> is_hex_i c"
  by (simp add: is_hex_i_def)

lemma toUpperCase_matches:
  assumes "udidPattern_test s"
  shows "match_udid is_hex_upper (toUpperCase s) = Some []"
proof -
  from assms obtain g1 g2 g3 g4 g5 where
    s: "s = g1 @ [hyphen] @ g2 @ [hyphen] @ g3 @ [hyphen] @ g4 @ [hyphen] @ g5"
    and l: "length g1 = 8" "length g2 = 4" "length g3 = 4" "length g4 = 4" "length g5 = 12"
    and h: "list_all is_hex_i (g1 @ g2 @ g3 @ g4 @ g5)"
    unfolding udidPattern_test_iff udid_grouped_def by blast
  have "toUpperCase s = map upper_unit g1 @ [hyphen] @ map upper_unit g2 @ [hyphen] @ map upper_unit g3 @ [hyphen]
      @ map upper_unit g4 @ [hyphen] @ map upper_unit g5"
    by (simp add: s toUpperCase_map upper_unit_hyphen)
  moreover have "list_all is_hex_upper (map upper_unit g1 @ map upper_unit g2 @ map upper_unit g3 @ map upper_unit g4 @ map upper_unit g5)"
    using h by (auto simp: list_all_iff upper_unit_hex)
  ultimately show ?thesis
    using l by (intro udid_grouped_imp_match [where ?g1.0 = "map upper_unit g1" and ?g2.0 = "map upper_unit g2"
        and ?g3.0 = "map upper_unit g3" and ?g4.0 = "map upper_unit g4" and ?g5.0 = "map upper_unit g5"]) simp_all
qed

lemma match_class_mono:
  "(\<And>c. P c \<Longrightarrow> Q c) \<Longrightarrow> match_class P n s = Some r \<Longrightarrow> match_class Q n s = Some r"
  by (induction P n s rule: match_class.induct) (auto split: if_splits)

lemma match_udid_upper_i:
  assumes "match_udid is_hex_upper s = Some []"
  shows "udidPattern_test s"
proof -
  from match_udid_imp_grouped [OF assms] obtain g1 g2 g3 g4 g5 where
    s: "s = g1 @ [hyphen] @ g2 @ [hyphen] @ g3 @ [hyphen] @ g4 @ [hyphen] @ g5"
    and l: "length g1 = 8" "length g2 = 4" "length g3 = 4" "length g4 = 4" "length g5 = 12"
    and h: "list_all is_hex_upper (g1 @ g2 @ g3 @ g4 @ g5)"
    by blast
  from h have "list_all is_hex_i (g1 @ g2 @ g3 @ g4 @ g5)"
    by (auto simp: list_all_iff hex_upper_i)
  with s l show ?thesis
    unfolding udidPattern_test_iff udid_grouped_def by blast
qed

lemma toUpperCase_idem: "toUpperCase (toUpperCase s) = toUpperCase s"
  by (simp add: toUpperCase_map upper_unit_idem)

text \<open>
  C7. \<open>validateUDID\<close> succeeds exactly on the strings of the 8-4-4-4-12 grouped
  hexadecimal pattern, in either case; the result is the upper-case form of the input (it
  matches the pattern with upper-case digits only), and validating the result again
  succeeds and returns it unchanged.
\<close>

theorem validateUDID_grouped:
  "((\<exists>r. validateUDID v = Inr r) \<longleftrightarrow> (\<exists>s. v = JStr s \<and> udid_grouped s)) \<and>
   (\<forall>r. validateUDID v = Inr r \<longrightarrow>
      (\<exists>s. v = JStr s \<and> r = toUpperCase s) \<and>
      match_udid is_hex_upper r = Some [] \<and>
      validateUDID (JStr r) = Inr r)"
proof (intro conjI allI impI)
  show "(\<exists>r. validateUDID v = Inr r) \<longleftrightarrow> (\<exists>s. v = JStr s \<and> udid_grouped s)"
    by (cases v) (auto simp: validateUDID_def udidPattern_test_iff)
next
  fix r assume r: "validateUDID v = Inr r"
  then obtain s where s: "v = JStr s" "udidPattern_test s" "r = toUpperCase s"
    by (cases v) (auto simp: validateUDID_def split: if_splits)
  show "\<exists>s. v = JStr s \<and> r = toUpperCase s"
    using s by blast
  show m: "match_udid is_hex_upper r = Some []"
    using s by (simp add: toUpperCase_matches)
  show "validateUDID (JStr r) = Inr r"
    using match_udid_upper_i [OF m] s(3) by (simp add: validateUDID_def toUpperCase_idem)
qed

theorem validateUDID_grouped_witness:
  "validateUDID (JStr (js ''a1b2c3d4-e5f6-7a8b-9c0d-123456abcdef'')) =
     Inr (js ''A1B2C3D4-E5F6-7A8B-9C0D-123456ABCDEF'') \<and>
   validateUDID (JStr (js ''A1B2C3D4-E5F6-7A8B-9C0D-123456ABCDEF'')) =
     Inr (js ''A1B2C3D4-E5F6-7A8B-9C0D-123456ABCDEF'') \<and>
   udid_grouped (js ''a1b2c3d4-e5f6-7a8b-9c0d-123456abcdef'')"
proof -
  let ?v = "JStr (js ''a1b2c3d4-e5f6-7a8b-9c0d-123456abcdef'')"
  have e: "validateUDID ?v = Inr (js ''A1B2C3D4-E5F6-7A8B-9C0D-123456ABCDEF'')"
    by code_simp
  note t = validateUDID_grouped [of ?v]
  from t e have "\<exists>s. ?v = JStr s \<and> udid_grouped s"
    by blast
  then have g: "udid_grouped (js ''a1b2c3d4-e5f6-7a8b-9c0d-123456abcdef'')"
    by blast
  from t [THEN conjunct2, rule_format, OF e]
  have "validateUDID (JStr (js ''A1B2C3D4-E5F6-7A8B-9C0D-123456ABCDEF'')) =
     Inr (js ''A1B2C3D4-E5F6-7A8B-9C0D-123456ABCDEF'')"
    by (rule conjunct2 [THEN conjunct2])
  with e g show ?thesis by blast
qed

section \<open>Properties of DeviceFormatter.extractIOSVersion\<close>

lemma not_digit_hyphen: "\<not> is_digit hyphen"
  by (simp add: is_digit_def hyphen_def)

lemma length_iOS: "length (js ''iOS-'') = 4"
  by (simp add: js_def)

lemma match_iOS_at_SomeD:
  assumes "match_iOS_at s = Some (a, b)"
  shows "\<exists>post. s = js ''iOS-'' @ a @ [hyphen] @ b @ post \<and> digits a \<and> digits b"
proof -
  define r where "r = drop 4 s"
  from assms have p: "take 4 s = js ''iOS-''"
    by (auto simp: match_iOS_at_def split: if_splits)
  then have s: "s = js ''iOS-'' @ r"
    unfolding r_def by (metis append_take_drop_id)
  from assms p obtain r2 where
    a: "a = takeWhile is_digit r" "a \<noteq> []"
    and h: "match_char hyphen (dropWhile is_digit r) = Some r2"
    and b: "b = takeWhile is_digit r2" "b \<noteq> []"
    unfolding match_iOS_at_def r_def
    by (auto simp: Let_def split: if_splits option.splits)
  from h have d: "dropWhile is_digit r = hyphen # r2"
    by (cases "dropWhile is_digit r") (auto split: if_splits)
  have "r = a @ dropWhile is_digit r"
    by (simp add: a(1))
  also have "\<dots> = a @ [hyphen] @ b @ dropWhile is_digit r2"
    by (simp add: d b(1))
  finally have "s = js ''iOS-'' @ a @ [hyphen] @ b @ dropWhile is_digit r2"
    using s by simp
  moreover have "digits a" "digits b"
    using a b by (auto simp: digits_def list_all_iff dest: set_takeWhileD)
  ultimately show ?thesis by blast
qed

lemma match_iOS_at_complete:
  assumes "digits d1" "digits d2"
  shows "match_iOS_at (js ''iOS-'' @ d1 @ [hyphen] @ d2 @ post) \<noteq> None"
proof -
  have t1: "takeWhile is_digit (d1 @ [hyphen] @ d2 @ post) = d1"
    using assms(1) by (simp add: digits_def list_all_iff takeWhile_append2 not_digit_hyphen)
  have d1: "dropWhile is_digit (d1 @ [hyphen] @ d2 @ post) = hyphen # d2 @ post"
    using assms(1) by (simp add: digits_def list_all_iff dropWhile_append2 not_digit_hyphen)
  have t2: "takeWhile is_digit (d2 @ post) = d2 @ takeWhile is_digit post"
    using assms(2) by (simp add: digits_def list_all_iff takeWhile_append2)
  show ?thesis
    using assms t1 d1 t2 by (simp add: match_iOS_at_def length_iOS digits_def)
qed

lemma match_iOS_SomeD:
  "match_iOS s = Some (a, b) \<Longrightarrow>
   \<exists>pre post. s = pre @ js ''iOS-'' @ a @ [hyphen] @ b @ post \<and> digits a \<and> digits b"
proof (induction s)
  case Nil
  then show ?case by simp
next
  case (Cons c s)
  show ?case
  proof (cases "match_iOS_at (c # s)")
    case None
    with Cons.prems have "match_iOS s = Some (a, b)" by simp
    from Cons.IH [OF this] obtain pre post where
      "s = pre @ js ''iOS-'' @ a @ [hyphen] @ b @ post" "digits a" "digits b" by blast
    then have "c # s = (c # pre) @ js ''iOS-'' @ a @ [hyphen] @ b @ post \<and> digits a \<and> digits b"
      by simp
    then show ?thesis by blast
  next
    case (Some g)
    with Cons.prems have "match_iOS_at (c # s) = Some (a, b)" by simp
    from match_iOS_at_SomeD [OF this] obtain post where
      "c # s = [] @ js ''iOS-'' @ a @ [hyphen] @ b @ post \<and> digits a \<and> digits b" by auto
    then show ?thesis by blast
  qed
qed

lemma match_iOS_complete:
  assumes "digits d1" "digits d2"
  shows "match_iOS (pre @ js ''iOS-'' @ d1 @ [hyphen] @ d2 @ post) \<noteq> None"
proof (induction pre)
  case Nil
  have "js ''iOS-'' @ d1 @ [hyphen] @ d2 @ post \<noteq> []"
    by (simp add: js_def)
  then obtain c t where ct: "js ''iOS-'' @ d1 @ [hyphen] @ d2 @ post = c # t"
    by (cases "js ''iOS-'' @ d1 @ [hyphen] @ d2 @ post") auto
  have "match_iOS_at (c # t) \<noteq> None"
    using match_iOS_at_complete [OF assms, of post] ct by simp
  then have "match_iOS (c # t) \<noteq> None"
    by (auto split: option.splits)
  then show ?case using ct by simp
next
  case (Cons c pre)
  then show ?case by (auto split: option.splits)
qed

lemma match_iOS_None_iff: "match_iOS s = None \<longleftrightarrow> \<not> contains_iOS_pattern s"
proof
  assume n: "match_iOS s = None"
  show "\<not> contains_iOS_pattern s"
  proof
    assume "contains_iOS_pattern s"
    then obtain pre d1 d2 post where
      "s = pre @ js ''iOS-'' @ d1 @ [hyphen] @ d2 @ post" "digits d1" "digits d2"
      unfolding contains_iOS_pattern_def by blast
    with match_iOS_complete [of d1 d2 pre post] n show False by simp
  qed
next
  assume c: "\<not> contains_iOS_pattern s"
  show "match_iOS s = None"
  proof (cases "match_iOS s")
    case (Some g)
    obtain a b where "g = (a, b)" by (cases g)
    with Some match_iOS_SomeD [of s a b] have "contains_iOS_pattern s"
      unfolding contains_iOS_pattern_def by blast
    with c show ?thesis by simp
  qed simp
qed

lemma contains_iOS_match: "contains_iOS_pattern s \<longleftrightarrow> (\<exists>pre a b post. iOS_match s pre a b post)"
  by (simp add: contains_iOS_pattern_def iOS_match_def)

lemma digit_run:
  "list_all is_digit m \<Longrightarrow> t = [] \<or> \<not> is_digit (hd t) \<Longrightarrow> takeWhile is_digit (m @ t) = m"
  by (cases t) (auto simp: list_all_iff takeWhile_append2)

lemma match_iOS_at_SomeD':
  assumes "match_iOS_at s = Some (a, b)"
  shows "\<exists>post. iOS_match s [] a b post \<and> (post = [] \<or> \<not> is_digit (hd post))"
proof -
  define r where "r = drop 4 s"
  from assms have p: "take 4 s = js ''iOS-''"
    by (auto simp: match_iOS_at_def split: if_splits)
  then have s: "s = js ''iOS-'' @ r"
    unfolding r_def by (metis append_take_drop_id)
  from assms p obtain r2 where
    a: "a = takeWhile is_digit r" "a \<noteq> []"
    and h: "match_char hyphen (dropWhile is_digit r) = Some r2"
    and b: "b = takeWhile is_digit r2" "b \<noteq> []"
    unfolding match_iOS_at_def r_def
    by (auto simp: Let_def split: if_splits option.splits)
  from h have d: "dropWhile is_digit r = hyphen # r2"
    by (simp add: match_char_Some_iff)
  have "r = a @ dropWhile is_digit r"
    by (simp add: a(1))
  also have "\<dots> = a @ [hyphen] @ b @ dropWhile is_digit r2"
    by (simp add: d b(1))
  finally have "s = [] @ js ''iOS-'' @ a @ [hyphen] @ b @ dropWhile is_digit r2"
    using s by simp
  moreover have "digits a" "digits b"
    using a b by (auto simp: digits_def list_all_iff dest: set_takeWhileD)
  moreover have "dropWhile is_digit r2 = [] \<or> \<not> is_digit (hd (dropWhile is_digit r2))"
    using hd_dropWhile [of is_digit r2] by blast
  ultimately show ?thesis
    unfolding iOS_match_def by blast
qed

lemma match_iOS_at_None:
  assumes "match_iOS_at s = None"
  shows "\<not> iOS_match s [] a b post"
proof
  assume "iOS_match s [] a b post"
  then have "s = js ''iOS-'' @ a @ [hyphen] @ b @ post" "digits a" "digits b"
    by (simp_all add: iOS_match_def)
  with match_iOS_at_complete [of a b post] assms show False by simp
qed

lemma iOS_match_Cons:
  "iOS_match (c # s) (c' # pre) a b post \<longleftrightarrow> c' = c \<and> iOS_match s pre a b post"
  by (auto simp: iOS_match_def)

lemma match_iOS_leftmost:
  "match_iOS s = Some (a, b) \<Longrightarrow> \<exists>pre post. leftmost_iOS_match s pre a b post"
proof (induction s)
  case Nil
  then show ?case by simp
next
  case (Cons c s)
  show ?case
  proof (cases "match_iOS_at (c # s)")
    case None
    with Cons.prems have "match_iOS s = Some (a, b)" by simp
    from Cons.IH [OF this] obtain pre post where
      l: "leftmost_iOS_match s pre a b post" by blast
    have "length (c # pre) \<le> length pre'" if m: "iOS_match (c # s) pre' a' b' post'"
      for pre' a' b' post'
    proof (cases pre')
      case Nil
      with m match_iOS_at_None [OF None] show ?thesis by blast
    next
      case (Cons c' pre'')
      with m have "iOS_match s pre'' a' b' post'"
        by (simp add: iOS_match_Cons)
      with l have "length pre \<le> length pre''"
        unfolding leftmost_iOS_match_def by blast
      with Cons show ?thesis by simp
    qed
    with l have "leftmost_iOS_match (c # s) (c # pre) a b post"
      unfolding leftmost_iOS_match_def by (simp add: iOS_match_Cons)
    then show ?thesis by blast
  next
    case (Some g)
    with Cons.prems have "match_iOS_at (c # s) = Some (a, b)" by simp
    from match_iOS_at_SomeD' [OF this] obtain post where
      "iOS_match (c # s) [] a b post" "post = [] \<or> \<not> is_digit (hd post)" by blast
    then have "leftmost_iOS_match (c # s) [] a b post"
      unfolding leftmost_iOS_match_def by simp
    then show ?thesis by blast
  qed
qed

lemma leftmost_iOS_match_unique:
  assumes 1: "leftmost_iOS_match s pre a b post" and 2: "leftmost_iOS_match s pre' a' b' post'"
  shows "a' = a \<and> b' = b"
proof -
  from 1 2 have l: "length pre = length pre'"
    unfolding leftmost_iOS_match_def by (meson le_antisym)
  from 1 have s1: "s = pre @ js ''iOS-'' @ a @ [hyphen] @ b @ post"
    and d1: "list_all is_digit a" "list_all is_digit b" "post = [] \<or> \<not> is_digit (hd post)"
    by (simp_all add: leftmost_iOS_match_def iOS_match_def digits_def)
  from 2 have s2: "s = pre' @ js ''iOS-'' @ a' @ [hyphen] @ b' @ post'"
    and d2: "list_all is_digit a'" "list_all is_digit b'" "post' = [] \<or> \<not> is_digit (hd post')"
    by (simp_all add: leftmost_iOS_match_def iOS_match_def digits_def)
  from s1 s2 l have e: "a @ [hyphen] @ b @ post = a' @ [hyphen] @ b' @ post'"
    by simp
  have h: "[hyphen] @ t = [] \<or> \<not> is_digit (hd ([hyphen] @ t))" for t
    by (simp add: not_digit_hyphen)
  have "takeWhile is_digit (a @ [hyphen] @ b @ post) = a"
    by (rule digit_run [OF d1(1) h])
  moreover have "takeWhile is_digit (a' @ [hyphen] @ b' @ post') = a'"
    by (rule digit_run [OF d2(1) h])
  ultimately have a: "a' = a"
    using e by simp
  with e have e': "b @ post = b' @ post'" by simp
  have "takeWhile is_digit (b @ post) = b"
    by (rule digit_run [OF d1(2,3)])
  moreover have "takeWhile is_digit (b' @ post') = b'"
    by (rule digit_run [OF d2(2,3)])
  ultimately have "b' = b"
    using e' by simp
  with a show ?thesis by simp
qed

lemma leftmost_iOS_match_result:
  assumes "leftmost_iOS_match s pre major minor post"
  shows "match_iOS s = Some (major, minor)"
proof -
  from assms have "contains_iOS_pattern s"
    unfolding contains_iOS_match leftmost_iOS_match_def by blast
  then obtain a b where m: "match_iOS s = Some (a, b)"
    using match_iOS_None_iff [of s] by (cases "match_iOS s") auto
  from match_iOS_leftmost [OF m] obtain pre' post' where
    "leftmost_iOS_match s pre' a b post'" by blast
  from leftmost_iOS_match_unique [OF assms this] m show ?thesis by simp
qed

text \<open>
  C8. The fixture runtime string gives \<open>iOS 17.0\<close>. For a runtime string that contains
  \<open>iOS-<digits>-<digits>\<close>, the result is \<open>iOS <major>.<minor>\<close> where \<open>major\<close> and
  \<open>minor\<close> are the two digit groups of the leftmost match, each as long as it can be;
  such a match exists whenever the string contains the pattern. A string without the
  pattern is returned unchanged.
\<close>

theorem extractIOSVersion_pattern:
  "extractIOSVersion (js ''com.apple.CoreSimulator.SimRuntime.iOS-17-0'') = js ''iOS 17.0'' \<and>
   (leftmost_iOS_match s pre major minor post \<longrightarrow>
      extractIOSVersion s = js ''iOS '' @ major @ js ''.'' @ minor) \<and>
   (contains_iOS_pattern s \<longrightarrow>
      (\<exists>pre major minor post. leftmost_iOS_match s pre major minor post)) \<and>
   (\<not> contains_iOS_pattern s \<longrightarrow> extractIOSVersion s = s)"
proof (intro conjI impI)
  show "extractIOSVersion (js ''com.apple.CoreSimulator.SimRuntime.iOS-17-0'') = js ''iOS 17.0''"
    by code_simp
next
  assume "leftmost_iOS_match s pre major minor post"
  then show "extractIOSVersion s = js ''iOS '' @ major @ js ''.'' @ minor"
    by (simp add: extractIOSVersion_def leftmost_iOS_match_result)
next
  assume "contains_iOS_pattern s"
  then obtain a b where "match_iOS s = Some (a, b)"
    using match_iOS_None_iff [of s] by (cases "match_iOS s") auto
  from match_iOS_leftmost [OF this]
  show "\<exists>pre major minor post. leftmost_iOS_match s pre major minor post"
    by blast
next
  assume "\<not> contains_iOS_pattern s"
  then have "match_iOS s = None" by (simp add: match_iOS_None_iff)
  then show "extractIOSVersion s = s" by (simp add: extractIOSVersion_def)
qed

theorem extractIOSVersion_pattern_witness:
  "contains_iOS_pattern (js ''SimRuntime.iOS-17-10.beta'') \<and>
   (\<exists>pre post. leftmost_iOS_match (js ''SimRuntime.iOS-17-10.beta'') pre (js ''17'') (js ''10'') post) \<and>
   extractIOSVersion (js ''SimRuntime.iOS-17-10.beta'') = js ''iOS 17.10'' \<and>
   \<not> contains_iOS_pattern (js ''SimRuntime.tvOS-17-0'') \<and>
   extractIOSVersion (js ''SimRuntime.tvOS-17-0'') = js ''SimRuntime.tvOS-17-0''"
proof -
  let ?a = "js ''SimRuntime.iOS-17-10.beta''" and ?b = "js ''SimRuntime.tvOS-17-0''"
  have m1: "match_iOS ?a = Some (js ''17'', js ''10'')"
    by code_simp
  have m2: "match_iOS ?b = None"
    by code_simp
  from match_iOS_leftmost [OF m1] obtain pre post where
    l: "leftmost_iOS_match ?a pre (js ''17'') (js ''10'') post" by blast
  have c1: "contains_iOS_pattern ?a"
    using m1 match_iOS_None_iff [of ?a] by simp
  have c2: "\<not> contains_iOS_pattern ?b"
    by (rule match_iOS_None_iff [THEN iffD1, OF m2])
  have j: "js ''iOS '' @ js ''17'' @ js ''.'' @ js ''10'' = js ''iOS 17.10''"
    by (simp add: js_def)
  have e1: "extractIOSVersion ?a = js ''iOS 17.10''"
    using extractIOSVersion_pattern [of ?a pre "js ''17''" "js ''10''" post,
        THEN conjunct2, THEN conjunct1, rule_format, OF l]
    by (simp only: j)
  note t1 = extractIOSVersion_pattern [of ?a, THEN conjunct2, THEN conjunct2, THEN conjunct1,
      rule_format, OF c1]
  have e2: "extractIOSVersion ?b = ?b"
    by (rule extractIOSVersion_pattern [of ?b, THEN conjunct2, THEN conjunct2, THEN conjunct2,
          rule_format, OF c2])
  from l have l': "\<exists>pre post. leftmost_iOS_match ?a pre (js ''17'') (js ''10'') post"
    by blast
  show ?thesis
    using c1 l' e1 c2 e2 by (intro conjI)
qed


section \<open>Properties of DescribeUITool.extractElements\<close>

lemma truthy_array: "Array_isArray v \<Longrightarrow> truthy v"
  by (cases v) auto

lemma children_items: "children node = array_items (get_prop node (js ''children''))"
  by (cases "get_prop node (js ''children'')") (simp_all add: children_def)

lemma children_not_array:
  "\<not> Array_isArray (get_prop node (js ''children'')) \<Longrightarrow> children node = []"
  by (cases "get_prop node (js ''children'')") (simp_all add: children_def)

lemma extractNodes_skip:
  "\<not> truthy node \<or> \<not> typeof_object node \<Longrightarrow>
   extractNodes d (node # nodes) elements = extractNodes d nodes elements"
  by (subst extractNodes.simps(2)) simp

lemma extractNodes_leaf:
  "truthy node \<Longrightarrow> typeof_object node \<Longrightarrow> \<not> Array_isArray (get_prop node (js ''children'')) \<Longrightarrow>
   extractNodes d (node # nodes) elements = extractNodes d nodes (push node elements)"
  by (subst extractNodes.simps(2)) (simp add: Let_def push_def)

lemma extractNodes_overflow:
  "truthy node \<Longrightarrow> typeof_object node \<Longrightarrow> Array_isArray (get_prop node (js ''children'')) \<Longrightarrow>
   extractNodes 0 (node # nodes) elements = Inl stack_overflow"
  by (subst extractNodes.simps(2)) (simp add: Let_def truthy_array)

lemma extractNodes_descend:
  "truthy node \<Longrightarrow> typeof_object node \<Longrightarrow> Array_isArray (get_prop node (js ''children'')) \<Longrightarrow>
   extractNodes (Suc d) (node # nodes) elements =
     (case extractNodes d (children node) (push node elements) of
        Inl e \<Rightarrow> Inl e
      | Inr elements2 \<Rightarrow> extractNodes (Suc d) nodes elements2)"
  by (subst extractNodes.simps(2)) (simp add: Let_def truthy_array push_def children_items)

lemma nesting_skip:
  "\<not> truthy node \<or> \<not> typeof_object node \<or> \<not> Array_isArray (get_prop node (js ''children'')) \<Longrightarrow>
   nesting (node # nodes) = nesting nodes"
  by (subst nesting.simps(2)) auto

lemma nesting_descend:
  "truthy node \<Longrightarrow> typeof_object node \<Longrightarrow> Array_isArray (get_prop node (js ''children'')) \<Longrightarrow>
   nesting (node # nodes) = max (Suc (nesting (children node))) (nesting nodes)"
  by (subst nesting.simps(2)) simp

lemma flat_Nil: "flat [] = []"
  by (simp add: flat_def)

lemma flat_skip:
  assumes "\<not> truthy node \<or> \<not> typeof_object node"
  shows "flat (node # nodes) = flat nodes"
proof -
  have "depth_first node = []"
    using assms by (subst depth_first.simps) auto
  then show ?thesis by (simp add: flat_def)
qed

lemma flat_node:
  "truthy node \<Longrightarrow> typeof_object node \<Longrightarrow>
   elements @ flat (node # nodes) = push node elements @ flat (children node) @ flat nodes"
  by (simp add: flat_def depth_first.simps [of node] carries_label_or_id_def make_element_def
      push_def)

lemma extractNodes_flat:
  "extractNodes d nodes elements =
     (if nesting nodes \<le> d then Inr (elements @ flat nodes) else Inl stack_overflow)"
proof (induction d nodes elements rule: extractNodes.induct)
  case (1 d elements)
  then show ?case by (simp add: flat_Nil)
next
  case (2 d node nodes elements)
  let ?c = "get_prop node (js ''children'')"
  show ?case
  proof (cases "\<not> truthy node \<or> \<not> typeof_object node")
    case True
    have n: "nesting (node # nodes) = nesting nodes"
      using True by (intro nesting_skip) blast
    show ?thesis
      unfolding extractNodes_skip [OF True] n flat_skip [OF True] by (rule 2(1) [OF True])
  next
    case False
    then have t: "truthy node" "typeof_object node" by simp_all
    note fl = flat_node [OF t, of elements nodes]
    show ?thesis
    proof (cases "Array_isArray ?c")
      case arr: True
      then have ta: "truthy ?c \<and> Array_isArray ?c"
        by (simp add: truthy_array)
      note n = nesting_descend [OF t arr, of nodes]
      show ?thesis
      proof (cases d)
        case 0
        show ?thesis
          unfolding 0 extractNodes_overflow [OF t arr] n by simp
      next
        case (Suc d')
        have i1: "extractNodes d' (children node) (push node elements) =
          (if nesting (children node) \<le> d'
           then Inr (push node elements @ flat (children node)) else Inl stack_overflow)"
          unfolding push_def children_items by (rule 2(2) [OF False refl refl ta Suc])
        show ?thesis
        proof (cases "nesting (children node) \<le> d'")
          case inner: True
          have r: "extractNodes d' (children node) (push node elements) =
              Inr (push node elements @ flat (children node))"
            using i1 inner by simp
          have i2: "extractNodes d nodes (push node elements @ flat (children node)) =
            (if nesting nodes \<le> d
             then Inr ((push node elements @ flat (children node)) @ flat nodes)
             else Inl stack_overflow)"
            unfolding push_def children_items
            by (rule 2(3) [OF False refl refl ta Suc r [unfolded push_def children_items]])
          have "extractNodes d (node # nodes) elements =
              extractNodes d nodes (push node elements @ flat (children node))"
            unfolding Suc extractNodes_descend [OF t arr] r by simp
          also note i2
          finally show ?thesis
            using inner unfolding n fl Suc by simp
        next
          case outer: False
          have r: "extractNodes d' (children node) (push node elements) = Inl stack_overflow"
            using i1 outer by simp
          have "extractNodes d (node # nodes) elements = Inl stack_overflow"
            unfolding Suc extractNodes_descend [OF t arr] r by simp
          then show ?thesis
            using outer unfolding n Suc by simp
        qed
      qed
    next
      case noarr: False
      then have nt: "\<not> (truthy ?c \<and> Array_isArray ?c)" by simp
      have i: "extractNodes d nodes (push node elements) =
        (if nesting nodes \<le> d then Inr (push node elements @ flat nodes)
         else Inl stack_overflow)"
        unfolding push_def by (rule 2(4) [OF False refl refl nt])
      have n: "nesting (node # nodes) = nesting nodes"
        using noarr by (intro nesting_skip) blast
      show ?thesis
        unfolding extractNodes_leaf [OF t noarr] i n fl children_not_array [OF noarr] flat_Nil
        by simp
    qed
  qed
qed

lemma extractElements_flat:
  "extractElements stack nodes =
     (if nesting (roots nodes) < stack then Inr (flat (roots nodes)) else Inl stack_overflow)"
  by (cases stack) (auto simp: extractElements_def extractNodes_flat roots_def)

lemma children_container: "get_prop (container cs) (js ''children'') = JArr cs"
  by (simp add: container_def js_def)

lemma children_leaf: "get_prop (leaf t l) (js ''children'') = JUndefined"
  by (simp add: leaf_def js_def)

lemma nesting_container: "nesting (container cs # nodes) = max (Suc (nesting cs)) (nesting nodes)"
  by (subst nesting.simps(2)) (simp add: children_container children_def, simp add: container_def)

lemma nesting_leaf: "nesting (leaf t l # nodes) = nesting nodes"
  by (subst nesting.simps(2)) (simp add: children_leaf)

lemma nesting_nest: "nesting [nest n (leaf t l)] = n"
  by (induction n) (simp_all add: nesting_leaf nesting_container)

lemma roots_container: "roots (container cs) = [container cs]"
  by (simp add: roots_def container_def)

lemma roots_nest: "roots (nest n (leaf t l)) = [nest n (leaf t l)]"
  by (cases n) (simp_all add: roots_def container_def leaf_def)

lemma nesting_fixture: "nesting (roots fixture_tree) = 2"
  by (simp add: fixture_tree_def roots_container nesting_container nesting_leaf)

lemma flat_fixture:
  "flat (roots fixture_tree) =
     [make_element (leaf ''Button'' ''Back''),
      make_element (leaf ''StaticText'' ''Title''),
      make_element (leaf ''Button'' ''Done'')]"
  unfolding flat_def by code_simp

text \<open>
  C6, as amended. When the children arrays of the tree are nested less deep than the
  call stack has room for activations of \<open>extractElements\<close>, the result is the list of
  the nodes that carry a label or an identifier, in depth-first order, each projected to
  its element; when they are nested deeper, \<open>extractElements\<close> ends by throwing a
  \<open>RangeError\<close>. A tree of three labelled leaves under two unlabelled containers gives the
  three leaves in their order on every stack with room for three activations.
\<close>

theorem extractElements_depth_first:
  "(nesting (roots nodes) < stack \<longrightarrow>
      extractElements stack nodes =
        Inr (map make_element (filter carries_label_or_id
               (concat (map depth_first (roots nodes)))))) \<and>
   (stack \<le> nesting (roots nodes) \<longrightarrow> extractElements stack nodes = Inl stack_overflow) \<and>
   (3 \<le> stack \<longrightarrow>
      extractElements stack
        (container [leaf ''Button'' ''Back'',
                    container [leaf ''StaticText'' ''Title''],
                    leaf ''Button'' ''Done'']) =
      Inr [make_element (leaf ''Button'' ''Back''),
           make_element (leaf ''StaticText'' ''Title''),
           make_element (leaf ''Button'' ''Done'')])"
proof (intro conjI impI)
  assume "nesting (roots nodes) < stack"
  then show "extractElements stack nodes =
        Inr (map make_element (filter carries_label_or_id
               (concat (map depth_first (roots nodes)))))"
    by (simp add: extractElements_flat flat_def)
next
  assume "stack \<le> nesting (roots nodes)"
  then show "extractElements stack nodes = Inl stack_overflow"
    by (simp add: extractElements_flat)
next
  assume "3 \<le> stack"
  then have "nesting (roots fixture_tree) < stack"
    by (simp add: nesting_fixture)
  then have "extractElements stack fixture_tree = Inr (flat (roots fixture_tree))"
    by (simp add: extractElements_flat)
  then show "extractElements stack
        (container [leaf ''Button'' ''Back'',
                    container [leaf ''StaticText'' ''Title''],
                    leaf ''Button'' ''Done'']) =
      Inr [make_element (leaf ''Button'' ''Back''),
           make_element (leaf ''StaticText'' ''Title''),
           make_element (leaf ''Button'' ''Done'')]"
    unfolding flat_fixture by (simp add: fixture_tree_def)
qed

text \<open>
  C6, as stated, fails at a labelled leaf inside 10000 containers on a stack with room
  for 10000 activations: \<open>extractElements\<close> throws instead of returning the leaf.
\<close>

theorem extractElements_deep_tree_overflows:
  "extractElements 10000 (nest 10000 (leaf ''Button'' ''Back'')) = Inl stack_overflow \<and>
   map make_element (filter carries_label_or_id
     (concat (map depth_first (roots (nest 10000 (leaf ''Button'' ''Back'')))))) \<noteq> []"
proof
  show "extractElements 10000 (nest 10000 (leaf ''Button'' ''Back'')) = Inl stack_overflow"
    by (simp add: extractElements_flat roots_nest nesting_nest)
next
  have df: "leaf ''Button'' ''Back'' \<in> set (depth_first (nest n (leaf ''Button'' ''Back'')))" for n
  proof (induction n)
    case 0
    show ?case
      by (subst depth_first.simps) (simp add: leaf_def)
  next
    case (Suc n)
    have "children (container [nest n (leaf ''Button'' ''Back'')]) = [nest n (leaf ''Button'' ''Back'')]"
      by (simp add: children_def children_container)
    with Suc show ?case
      by (subst depth_first.simps) (simp add: container_def)
  qed
  have c: "carries_label_or_id (leaf ''Button'' ''Back'')"
    by (simp add: carries_label_or_id_def leaf_def js_def)
  from df [of 10000] c
  have "leaf ''Button'' ''Back'' \<in>
      set (filter carries_label_or_id
        (concat (map depth_first (roots (nest 10000 (leaf ''Button'' ''Back''))))))"
    by (simp add: roots_nest)
  then show "map make_element (filter carries_label_or_id
     (concat (map depth_first (roots (nest 10000 (leaf ''Button'' ''Back'')))))) \<noteq> []"
    by (metis empty_iff list.map_disc_iff set_empty)
qed

theorem extractElements_depth_first_witness:
  "nesting (roots fixture_tree) < 3 \<and>
   extractElements 3 fixture_tree =
     Inr [make_element (leaf ''Button'' ''Back''),
          make_element (leaf ''StaticText'' ''Title''),
          make_element (leaf ''Button'' ''Done'')] \<and>
   (2::nat) \<le> nesting (roots fixture_tree) \<and>
   extractElements 2 fixture_tree = Inl stack_overflow"
proof -
  have a: "nesting (roots fixture_tree) < 3" and b: "(2::nat) \<le> nesting (roots fixture_tree)"
    by (simp_all add: nesting_fixture)
  have c: "(3::nat) \<le> 3" by simp
  note t3 = extractElements_depth_first [of fixture_tree 3]
  note t2 = extractElements_depth_first [of fixture_tree 2]
  have e1: "extractElements 3 fixture_tree =
        Inr (map make_element (filter carries_label_or_id
               (concat (map depth_first (roots fixture_tree)))))"
    using t3 a by blast
  have e2: "extractElements 3 fixture_tree =
     Inr [make_element (leaf ''Button'' ''Back''),
          make_element (leaf ''StaticText'' ''Title''),
          make_element (leaf ''Button'' ''Done'')]"
    using t3 [THEN conjunct2, THEN conjunct2, rule_format, OF c]
    by (simp add: fixture_tree_def)
  have e3: "extractElements 2 fixture_tree = Inl stack_overflow"
    using t2 b by blast
  show ?thesis
    using a b e2 e3 by (intro conjI)
qed


section \<open>Properties of DeviceFormatter.sortDevices\<close>


lemma consistent_total: "consistent cmp \<Longrightarrow> cmp a b \<le> 0 \<or> cmp b a \<le> 0"
  unfolding consistent_def by (metis less_le_not_le linorder_le_cases)

lemma consistent_trans: "consistent cmp \<Longrightarrow> cmp a b \<le> 0 \<Longrightarrow> cmp b c \<le> 0 \<Longrightarrow> cmp a c \<le> 0"
  unfolding consistent_def by blast

lemma compareDevices_total:
  "consistent lc \<Longrightarrow> compareDevices lc a b \<le> 0 \<or> compareDevices lc b a \<le> 0"
  using consistent_total [of lc "dev_name a" "dev_name b"] by (auto simp: compareDevices_def)

lemma compareDevices_trans:
  "consistent lc \<Longrightarrow> compareDevices lc a b \<le> 0 \<Longrightarrow> compareDevices lc b c \<le> 0
   \<Longrightarrow> compareDevices lc a c \<le> 0"
  using consistent_trans [of lc "dev_name a" "dev_name b" "dev_name c"]
  by (auto simp: compareDevices_def split: if_splits)

lemma mset_place: "mset (place cmp x xs) = add_mset x (mset xs)"
  by (induction xs) auto

lemma mset_stable_sort: "mset (stable_sort cmp xs) = mset xs"
  unfolding stable_sort_def by (induction xs) (auto simp: mset_place)

lemma set_place: "set (place cmp x xs) = insert x (set xs)"
  by (induction xs) auto

lemma sorted_place:
  assumes tot: "\<And>a b. cmp a b \<le> 0 \<or> cmp b a \<le> 0"
    and tr: "\<And>a b c. cmp a b \<le> 0 \<Longrightarrow> cmp b c \<le> 0 \<Longrightarrow> cmp a c \<le> 0"
  shows "sorted_wrt (\<lambda>a b. cmp a b \<le> 0) xs \<Longrightarrow> sorted_wrt (\<lambda>a b. cmp a b \<le> 0) (place cmp x xs)"
proof (induction xs)
  case Nil
  then show ?case by simp
next
  case (Cons y ys)
  show ?case
  proof (cases "cmp x y \<le> 0")
    case True
    with Cons.prems tr show ?thesis by auto
  next
    case False
    with tot have "cmp y x \<le> 0" by blast
    with Cons False show ?thesis by (auto simp: set_place)
  qed
qed

lemma sorted_stable_sort:
  assumes "\<And>a b. cmp a b \<le> 0 \<or> cmp b a \<le> 0"
    and "\<And>a b c. cmp a b \<le> 0 \<Longrightarrow> cmp b c \<le> 0 \<Longrightarrow> cmp a c \<le> 0"
  shows "sorted_wrt (\<lambda>a b. cmp a b \<le> 0) (stable_sort cmp xs)"
  unfolding stable_sort_def
  by (induction xs) (auto intro: sorted_place [OF assms])

lemma compare_units_antisym: "(compare_units a b < 0) = (0 < compare_units b a)"
  by (induction a b rule: compare_units.induct) auto

lemma compare_units_le: "compare_units a b \<le> 0 \<longleftrightarrow> \<not> 0 < compare_units a b"
  by auto

lemma compare_units_trans:
  "compare_units a b \<le> 0 \<Longrightarrow> compare_units b c \<le> 0 \<Longrightarrow> compare_units a c \<le> 0"
proof (induction a b arbitrary: c rule: compare_units.induct)
  case 1
  then show ?case by simp
next
  case (2 y ys)
  then show ?case by (cases c) auto
next
  case (3 x xs)
  then show ?case by simp
next
  case (4 x xs y ys)
  then show ?case
    by (cases c) (auto split: if_splits)
qed

lemma consistent_compare_units: "consistent compare_units"
  unfolding consistent_def using compare_units_antisym compare_units_trans by blast

text \<open>
  C10. \<open>sortDevices\<close> returns a reference to a new array; every array of the store, the
  input among them, is as it was; the new array has the elements of the input, every
  booted device is before every device that is not booted, and two devices of the same
  booted status are in the order of \<open>localeCompare\<close> on their names.
\<close>

theorem sortDevices_frame_order:
  assumes "consistent localeCompare" and "devices < length h"
    and "sortDevices localeCompare h devices = (r, h')"
  shows "r \<noteq> devices \<and> r < length h' \<and>
         (\<forall>a < length h. h' ! a = h ! a) \<and>
         mset (h' ! r) = mset (h ! devices) \<and>
         (\<forall>i j. i < j \<and> j < length (h' ! r) \<longrightarrow>
            \<not> (\<not> booted (h' ! r ! i) \<and> booted (h' ! r ! j)) \<and>
            (booted (h' ! r ! i) = booted (h' ! r ! j) \<longrightarrow>
               localeCompare (dev_name (h' ! r ! i)) (dev_name (h' ! r ! j)) \<le> 0))"
proof -
  let ?cmp = "compareDevices localeCompare"
  let ?s = "stable_sort ?cmp (h ! devices)"
  from assms(3) have r: "r = length h" and h': "h' = (h @ [h ! devices])[length h := ?s]"
    by (auto simp: sortDevices_def spread_def array_sort_def)
  have res: "h' ! r = ?s"
    by (simp add: r h')
  have frame: "\<forall>a < length h. h' ! a = h ! a"
    by (simp add: h' nth_append)
  have srt: "sorted_wrt (\<lambda>a b. ?cmp a b \<le> 0) ?s"
    by (rule sorted_stable_sort)
       (use assms(1) compareDevices_total compareDevices_trans in blast)+
  have ord: "\<not> (\<not> booted (?s ! i) \<and> booted (?s ! j)) \<and>
            (booted (?s ! i) = booted (?s ! j) \<longrightarrow>
               localeCompare (dev_name (?s ! i)) (dev_name (?s ! j)) \<le> 0)"
    if "i < j" "j < length ?s" for i j
  proof -
    from srt that have "?cmp (?s ! i) (?s ! j) \<le> 0"
      by (simp add: sorted_wrt_iff_nth_less)
    then show ?thesis
      by (auto simp: compareDevices_def split: if_splits)
  qed
  show ?thesis
    using assms(2) frame ord by (simp add: res mset_stable_sort) (simp add: r h')
qed

theorem sortDevices_frame_order_witness:
  "consistent compare_units \<and> (0::nat) < length [fixture_devices] \<and>
   fst (sortDevices compare_units [fixture_devices] 0) \<noteq> 0 \<and>
   snd (sortDevices compare_units [fixture_devices] 0) ! 0 = fixture_devices \<and>
   mset (snd (sortDevices compare_units [fixture_devices] 0) !
           fst (sortDevices compare_units [fixture_devices] 0)) = mset fixture_devices \<and>
   map dev_name (snd (sortDevices compare_units [fixture_devices] 0) ! 1) =
     [js ''iPhone SE'', js ''iPad Air'', js ''iPhone 15'']"
proof -
  have l: "(0::nat) < length [fixture_devices]" by simp
  obtain r h' where e: "sortDevices compare_units [fixture_devices] 0 = (r, h')"
    by (cases "sortDevices compare_units [fixture_devices] 0")
  have n: "map dev_name (snd (sortDevices compare_units [fixture_devices] 0) ! 1) =
     [js ''iPhone SE'', js ''iPad Air'', js ''iPhone 15'']"
    by code_simp
  note t = sortDevices_frame_order [OF consistent_compare_units l e]
  show ?thesis
    using t n consistent_compare_units by (simp add: e)
qed


section \<open>Properties of CommandExecutor\<close>

lemma in_ALLOWED_xcrun: "in_ALLOWED_COMMANDS (js ''xcrun'')"
  by (simp add: in_ALLOWED_COMMANDS_def ALLOWED_COMMANDS_def)

lemma in_ALLOWED_axe: "in_ALLOWED_COMMANDS (js ''axe'')"
  by (simp add: in_ALLOWED_COMMANDS_def ALLOWED_COMMANDS_def)

lemma get_ALLOWED_xcrun: "get_ALLOWED_COMMANDS (js ''xcrun'') = JStr (js ''/usr/bin/xcrun'')"
  by (simp add: get_ALLOWED_COMMANDS_def ALLOWED_COMMANDS_def js_def)

lemma get_ALLOWED_axe: "get_ALLOWED_COMMANDS (js ''axe'') = JStr (js ''/opt/homebrew/bin/axe'')"
  by (simp add: get_ALLOWED_COMMANDS_def ALLOWED_COMMANDS_def js_def)

lemma executeSafeCommand_xcrun:
  "executeSafeCommand h (js ''xcrun'') list_booted calls =
     (map_sum id stdout (check_result h (snd (snd probe)) (spawn h calls probe)), calls @ [probe])"
  by (simp add: executeSafeCommand_def in_ALLOWED_xcrun get_ALLOWED_xcrun spawnSync_def probe_def
      Let_def)

lemma snd_getBootedUDID: "snd (getBootedUDID h calls) = calls @ [probe]"
  by (simp add: getBootedUDID_def executeSafeCommand_xcrun split: sum.splits)

lemma snd_isSimulatorBooted: "snd (isSimulatorBooted h calls) = calls @ [probe]"
  by (simp add: isSimulatorBooted_def executeSafeCommand_xcrun split: sum.splits)

lemma snd_bootedUDID: "snd (bootedUDID h calls) = calls @ [probe]"
  using snd_getBootedUDID [of h calls]
  by (cases "getBootedUDID h calls") (auto simp: bootedUDID_def split: option.splits)

lemma execute_axe:
  "execute h (js ''axe'' # args) options calls =
     (check_result h (merge_options options)
        (spawn h calls (js ''/opt/homebrew/bin/axe'', args, merge_options options)),
      calls @ [(js ''/opt/homebrew/bin/axe'', args, merge_options options)])"
  by (simp add: execute_def element0_def in_ALLOWED_axe get_ALLOWED_axe spawnSync_def Let_def)

lemma execute_not_allowed:
  "\<not> in_ALLOWED_COMMANDS (element0 command) \<Longrightarrow>
   execute h command options calls =
     (Inl (Error (js ''Command not allowed: '' @ element0 command)), calls)"
  by (simp add: execute_def)

lemma executeSafeCommand_not_allowed:
  "\<not> in_ALLOWED_COMMANDS command \<Longrightarrow>
   executeSafeCommand h command args calls =
     (Inl (Error (js ''Command not allowed: '' @ command)), calls)"
  by (simp add: executeSafeCommand_def)

lemma execute_xcrun:
  "snd (execute h (js ''xcrun'' # args) options calls) =
     calls @ [(js ''/usr/bin/xcrun'', args, merge_options options)]"
  by (simp add: execute_def element0_def in_ALLOWED_xcrun get_ALLOWED_xcrun spawnSync_def Let_def)

text \<open>
  C1, at the name \<open>toString\<close>. The name is not in the allow-list, and yet the test
  \<open>in ALLOWED_COMMANDS\<close> lets it pass in \<open>execute\<close> and in \<open>executeSafeCommand\<close>, as
  \<open>Object.prototype\<close> defines it: \<open>spawnSync\<close> is called with a function for its file
  and throws a \<open>TypeError\<close>. No process is started, and the error is not
  \<open>Command not allowed\<close>.
\<close>

theorem execute_inherited_name:
  "js ''toString'' \<notin> {js ''xcrun'', js ''axe''} \<and>
   execute h (js ''toString'' # args) options calls =
     (Inl (TypeError (js ''The file argument must be of type string'')), calls) \<and>
   executeSafeCommand h (js ''toString'') args calls =
     (Inl (TypeError (js ''The file argument must be of type string'')), calls)"
proof -
  have i: "in_ALLOWED_COMMANDS (js ''toString'')"
    by (simp add: in_ALLOWED_COMMANDS_def Object_prototype_def)
  have g: "get_ALLOWED_COMMANDS (js ''toString'') = JFunction"
    by (simp add: get_ALLOWED_COMMANDS_def ALLOWED_COMMANDS_def Object_prototype_def js_def)
  have n: "js ''toString'' \<notin> {js ''xcrun'', js ''axe''}"
    by (simp add: js_def)
  show ?thesis
    using n by (simp add: execute_def executeSafeCommand_def element0_def i g spawnSync_def
        check_result_def Let_def)
qed

section \<open>Properties of SimulatorService\<close>

lemma upper_unit_fix: "is_hex_upper c \<Longrightarrow> upper_unit c = c"
  unfolding is_hex_upper_def is_digit_def upper_unit_def
  by (auto simp: word_le_nat_alt)

lemma search_udid_valid:
  "search_udid s = Some u \<Longrightarrow> validateUDID (JStr u) = Inr u \<and> u \<noteq> []"
proof (induction s)
  case Nil
  then show ?case by simp
next
  case (Cons c s)
  show ?case
  proof (cases "match_udid is_hex_upper (c # s)")
    case None
    with Cons show ?thesis by simp
  next
    case (Some r)
    with Cons.prems have u: "u = take 36 (c # s)" by simp
    from match_udid_SomeD [OF Some] obtain g1 g2 g3 g4 g5 where
      s: "c # s = (g1 @ [hyphen] @ g2 @ [hyphen] @ g3 @ [hyphen] @ g4 @ [hyphen] @ g5) @ r"
      and l: "length g1 = 8" "length g2 = 4" "length g3 = 4" "length g4 = 4" "length g5 = 12"
      and p: "list_all is_hex_upper (g1 @ g2 @ g3 @ g4 @ g5)"
      by blast
    have u': "u = g1 @ [hyphen] @ g2 @ [hyphen] @ g3 @ [hyphen] @ g4 @ [hyphen] @ g5"
      unfolding u s using l by simp
    have m: "match_udid is_hex_upper u = Some []"
      using u' l p by (rule udid_grouped_imp_match)
    have "toUpperCase u = u"
      using p unfolding u' toUpperCase_map
      by (auto simp: list_all_iff upper_unit_fix upper_unit_hyphen intro!: map_idI)
    moreover have "u \<noteq> []"
      using u' by simp
    ultimately show ?thesis
      using match_udid_upper_i [OF m] by (simp add: validateUDID_def)
  qed
qed

lemma bootedUDID_valid:
  "bootedUDID h calls = (Inr u, calls1) \<Longrightarrow> validateUDID (JStr u) = Inr u \<and> calls1 = calls @ [probe]"
  using snd_bootedUDID [of h calls] snd_getBootedUDID [of h calls]
  by (cases "getBootedUDID h calls")
     (auto simp: bootedUDID_def getBootedUDID_def executeSafeCommand_xcrun
      split: option.splits sum.splits if_splits dest: search_udid_valid)

lemma bootedUDID_cases:
  obtains e where "bootedUDID h calls = (Inl e, calls @ [probe])"
  | u where "bootedUDID h calls = (Inr u, calls @ [probe])" "validateUDID (JStr u) = Inr u"
proof (cases "bootedUDID h calls")
  case (Pair r c)
  with snd_bootedUDID [of h calls] have c: "c = calls @ [probe]" by simp
  show ?thesis
  proof (cases r)
    case (Inl e)
    with Pair c that(1) show ?thesis by simp
  next
    case (Inr u)
    with Pair c bootedUDID_valid [of h calls u c] that(2) show ?thesis by simp
  qed
qed

text \<open>
  C5, as amended. For a preset outside the eight names \<open>gesture\<close> throws, and the one
  call made by then is the query for the booted devices: no gesture command is run. For
  one of the eight names, no duration and the booted device \<open>u\<close>, \<open>gesture\<close> passes
  exactly \<open>["axe", "gesture", preset, "--udid", u]\<close> to \<open>execute\<close>, which runs \<open>axe\<close> with
  the rest of the vector after the query.
\<close>

theorem gesture_presets:
  "(preset \<notin> JStr ` set validPresets \<longrightarrow>
      (\<exists>e. gesture h preset options calls = (Inl e, calls @ [probe]))) \<and>
   (p \<in> set validPresets \<and> duration options = JUndefined \<and>
    bootedUDID h calls = (Inr u, calls1) \<longrightarrow>
      gesture h (JStr p) options calls =
        (case execute h [js ''axe'', js ''gesture'', p, js ''--udid'', u] utf8 calls1 of
           (r, calls2) \<Rightarrow> (stdout_or (js ''Gesture '' @ p @ js '' completed'') r, calls2)) \<and>
      snd (gesture h (JStr p) options calls) =
        calls @ [probe, axe_call [js ''gesture'', p, js ''--udid'', u]])"
proof (intro conjI impI)
  assume "preset \<notin> JStr ` set validPresets"
  then have v: "valid_preset preset = None"
    by (cases preset) (auto simp: valid_preset_def)
  show "\<exists>e. gesture h preset options calls = (Inl e, calls @ [probe])"
    by (rule bootedUDID_cases [of h calls]) (simp_all add: gesture_def v)
next
  assume a: "p \<in> set validPresets \<and> duration options = JUndefined \<and>
    bootedUDID h calls = (Inr u, calls1)"
  then have v: "valid_preset (JStr p) = Some p"
    by (simp add: valid_preset_def)
  from a bootedUDID_valid [of h calls u calls1]
  have u: "validateUDID (JStr u) = Inr u" and c: "calls1 = calls @ [probe]" by simp_all
  show g: "gesture h (JStr p) options calls =
        (case execute h [js ''axe'', js ''gesture'', p, js ''--udid'', u] utf8 calls1 of
           (r, calls2) \<Rightarrow> (stdout_or (js ''Gesture '' @ p @ js '' completed'') r, calls2))"
    using a by (simp add: gesture_def v u duration_args_def)
  show "snd (gesture h (JStr p) options calls) =
        calls @ [probe, axe_call [js ''gesture'', p, js ''--udid'', u]]"
    unfolding g by (simp add: execute_axe c axe_call_def)
qed

lemma fixture_search:
  "search_udid (js ''    iPhone 15 ('' @ fixture_udid @ js '') (Booted)'') = Some fixture_udid"
  by code_simp

lemma fixture_bootedUDID: "bootedUDID fixture_host calls = (Inr fixture_udid, calls @ [probe])"
proof -
  have "fixture_udid \<noteq> []" by (simp add: fixture_udid_def js_def)
  then show ?thesis
    by (simp add: bootedUDID_def getBootedUDID_def executeSafeCommand_xcrun fixture_host_def
      fixture_spawn_def probe_def check_result_def fixture_search)
qed

text \<open>
  C5, as stated, fails at the preset \<open>diagonal\<close> on the fixture host: \<open>gesture\<close> throws,
  but by then the executor has been called for the booted devices.
\<close>

theorem gesture_diagonal_probes:
  "isl (fst (gesture fixture_host (JStr (js ''diagonal'')) \<lparr>duration = JUndefined\<rparr> [])) \<and>
   snd (gesture fixture_host (JStr (js ''diagonal'')) \<lparr>duration = JUndefined\<rparr> []) = [probe]"
proof -
  have v: "valid_preset (JStr (js ''diagonal'')) = None"
    by (simp add: valid_preset_def validPresets_def js_def)
  show ?thesis
    by (simp add: gesture_def fixture_bootedUDID v)
qed

theorem gesture_presets_witness:
  "JStr (js ''diagonal'') \<notin> JStr ` set validPresets \<and>
   js ''scroll-up'' \<in> set validPresets \<and>
   isl (fst (gesture fixture_host (JStr (js ''diagonal'')) \<lparr>duration = JUndefined\<rparr> [])) \<and>
   gesture fixture_host (JStr (js ''scroll-up'')) \<lparr>duration = JUndefined\<rparr> [] =
     (Inr (js ''Gesture scroll-up completed''),
      [probe, axe_call [js ''gesture'', js ''scroll-up'', js ''--udid'', fixture_udid]])"
proof -
  let ?o = "\<lparr>duration = JUndefined\<rparr>"
  have n: "JStr (js ''diagonal'') \<notin> JStr ` set validPresets"
    by (simp add: validPresets_def js_def)
  have p: "js ''scroll-up'' \<in> set validPresets"
    by (simp add: validPresets_def)
  have d: "duration ?o = JUndefined" by simp
  note b = fixture_bootedUDID [of "[]"]
  from gesture_presets [of "JStr (js ''diagonal'')" fixture_host ?o "[]"] n
  obtain e where e: "gesture fixture_host (JStr (js ''diagonal'')) ?o [] = (Inl e, [] @ [probe])"
    by blast
  from gesture_presets [of _ fixture_host ?o "[]" "js ''scroll-up''" fixture_udid "[] @ [probe]"]
    p d b
  have g: "gesture fixture_host (JStr (js ''scroll-up'')) ?o [] =
        (case execute fixture_host [js ''axe'', js ''gesture'', js ''scroll-up'', js ''--udid'',
             fixture_udid] utf8 ([] @ [probe]) of
           (r, calls2) \<Rightarrow> (stdout_or (js ''Gesture '' @ js ''scroll-up'' @ js '' completed'') r, calls2))"
    by blast
  have x: "js ''/opt/homebrew/bin/axe'' \<noteq> js ''/usr/bin/xcrun''"
    by (simp add: js_def)
  have ex: "execute fixture_host [js ''axe'', js ''gesture'', js ''scroll-up'', js ''--udid'',
             fixture_udid] utf8 ([] @ [probe]) =
     (Inr \<lparr>error = None, status = Some 0, stdout = [], stderr = []\<rparr>,
      [probe, axe_call [js ''gesture'', js ''scroll-up'', js ''--udid'', fixture_udid]])"
    using x by (simp add: execute_axe fixture_host_def fixture_spawn_def check_result_def
        axe_call_def)
  have c: "js ''Gesture '' @ js ''scroll-up'' @ js '' completed'' = js ''Gesture scroll-up completed''"
    by (simp add: js_def)
  have "gesture fixture_host (JStr (js ''scroll-up'')) ?o [] =
     (Inr (js ''Gesture scroll-up completed''),
      [probe, axe_call [js ''gesture'', js ''scroll-up'', js ''--udid'', fixture_udid]])"
    unfolding g ex c by (simp add: stdout_or_def)
  with n p e show ?thesis by simp
qed

lemma tap_target_coordinates:
  "tap_x options \<noteq> JUndefined \<Longrightarrow> tap_y options \<noteq> JUndefined \<Longrightarrow>
   tap_target h (options\<lparr>tap_id := i, tap_label := l\<rparr>) = tap_target h options"
  by (simp add: tap_target_def cong: sum.case_cong)

lemma tap_target_id:
  "\<not> (tap_x options \<noteq> JUndefined \<and> tap_y options \<noteq> JUndefined) \<Longrightarrow> truthy (tap_id options) \<Longrightarrow>
   tap_target h (options\<lparr>tap_label := l\<rparr>) = tap_target h options"
  by (auto simp: tap_target_def cong: sum.case_cong)

lemma tap_by_target:
  "tap_target h o1 = tap_target h o2 \<Longrightarrow> tap h o1 calls = tap h o2 calls"
  by (simp add: tap_def cong: sum.case_cong prod.case_cong)

lemma tap_booted:
  assumes "bootedUDID h calls = (Inr u, calls1)" and "tap_target h options = Inr target"
  shows "tap h options calls =
           (case execute h ([js ''axe'', js ''tap'', js ''--udid'', u] @ target) utf8 calls1 of
              (r, calls2) \<Rightarrow> (stdout_or (js ''Tap completed'') r, calls2))"
    and "snd (tap h options calls) =
           calls @ [probe, axe_call ([js ''tap'', js ''--udid'', u] @ target)]"
proof -
  from bootedUDID_valid [OF assms(1)]
  have u: "validateUDID (JStr u) = Inr u" and c: "calls1 = calls @ [probe]" by simp_all
  show t: "tap h options calls =
           (case execute h ([js ''axe'', js ''tap'', js ''--udid'', u] @ target) utf8 calls1 of
              (r, calls2) \<Rightarrow> (stdout_or (js ''Tap completed'') r, calls2))"
    using assms by (simp add: tap_def u)
  show "snd (tap h options calls) =
           calls @ [probe, axe_call ([js ''tap'', js ''--udid'', u] @ target)]"
    unfolding t by (simp add: execute_axe c axe_call_def)
qed

text \<open>
  C9. When \<open>x\<close> and \<open>y\<close> are both defined, \<open>tap\<close> does the same whatever the identifier
  and the label are, and the arguments it builds are the validated coordinates. When
  they are not both defined and the identifier is truthy, \<open>tap\<close> does the same whatever
  the label is, and the arguments are the validated identifier. With a booted device
  \<open>u\<close>, the vector passed to \<open>execute\<close> is \<open>["axe", "tap", "--udid", u]\<close> followed by
  these arguments.
\<close>

theorem tap_precedence:
  "(tap_x options \<noteq> JUndefined \<and> tap_y options \<noteq> JUndefined \<longrightarrow>
      tap h options calls = tap h (options\<lparr>tap_id := i, tap_label := l\<rparr>) calls \<and>
      (\<forall>target. tap_target h options = Inr target \<longrightarrow>
         (\<exists>x y. validateCoordinate h (tap_x options) (js ''x'') 0 5000 = Inr x \<and>
                validateCoordinate h (tap_y options) (js ''y'') 0 5000 = Inr y \<and>
                target = [js ''-x'', String_num h x, js ''-y'', String_num h y]))) \<and>
   (\<not> (tap_x options \<noteq> JUndefined \<and> tap_y options \<noteq> JUndefined) \<and> truthy (tap_id options) \<longrightarrow>
      tap h options calls = tap h (options\<lparr>tap_label := l\<rparr>) calls \<and>
      (\<forall>target. tap_target h options = Inr target \<longrightarrow>
         (\<exists>v. validateAccessibilityId (tap_id options) = Inr v \<and> target = [js ''--id'', v]))) \<and>
   (bootedUDID h calls = (Inr u, calls1) \<and> tap_target h options = Inr target \<longrightarrow>
      tap h options calls =
        (case execute h ([js ''axe'', js ''tap'', js ''--udid'', u] @ target) utf8 calls1 of
           (r, calls2) \<Rightarrow> (stdout_or (js ''Tap completed'') r, calls2)) \<and>
      snd (tap h options calls) =
        calls @ [probe, axe_call ([js ''tap'', js ''--udid'', u] @ target)])"
proof (intro conjI impI allI)
  assume a: "tap_x options \<noteq> JUndefined \<and> tap_y options \<noteq> JUndefined"
  show "tap h options calls = tap h (options\<lparr>tap_id := i, tap_label := l\<rparr>) calls"
    using a by (intro tap_by_target) (simp add: tap_target_coordinates)
  fix target assume "tap_target h options = Inr target"
  with a show "\<exists>x y. validateCoordinate h (tap_x options) (js ''x'') 0 5000 = Inr x \<and>
                validateCoordinate h (tap_y options) (js ''y'') 0 5000 = Inr y \<and>
                target = [js ''-x'', String_num h x, js ''-y'', String_num h y]"
    by (auto simp: tap_target_def split: sum.splits)
next
  assume a: "\<not> (tap_x options \<noteq> JUndefined \<and> tap_y options \<noteq> JUndefined) \<and> truthy (tap_id options)"
  show "tap h options calls = tap h (options\<lparr>tap_label := l\<rparr>) calls"
    using a by (intro tap_by_target) (simp add: tap_target_id)
  fix target assume "tap_target h options = Inr target"
  with a show "\<exists>v. validateAccessibilityId (tap_id options) = Inr v \<and> target = [js ''--id'', v]"
    by (auto simp: tap_target_def split: sum.splits)
next
  assume a: "bootedUDID h calls = (Inr u, calls1) \<and> tap_target h options = Inr target"
  show "tap h options calls =
        (case execute h ([js ''axe'', js ''tap'', js ''--udid'', u] @ target) utf8 calls1 of
           (r, calls2) \<Rightarrow> (stdout_or (js ''Tap completed'') r, calls2))"
    using a by (intro tap_booted(1)) simp_all
  show "snd (tap h options calls) =
        calls @ [probe, axe_call ([js ''tap'', js ''--udid'', u] @ target)]"
    using a by (intro tap_booted(2)) simp_all
qed

text \<open>
  C3, as amended. A request with no coordinate pair, no identifier and no label is
  rejected: \<open>SimulatorService.tap\<close> throws and \<open>TapTool.execute\<close> returns an error
  response, and the one call made by then is the query for the booted devices; no tap
  command is run. A request with more than one of them is not rejected: \<open>tap\<close> does
  with it what it does with the request that has only the first of them, in the order
  coordinates, identifier, label.
\<close>

theorem tap_none_rejected:
  "(\<not> (tap_x options \<noteq> JUndefined \<and> tap_y options \<noteq> JUndefined) \<and>
    \<not> truthy (tap_id options) \<and> \<not> truthy (tap_label options) \<longrightarrow>
      (\<exists>e. tap h options calls = (Inl e, calls @ [probe]))) \<and>
   (\<not> (get_prop args (js ''x'') \<noteq> JUndefined \<and> get_prop args (js ''y'') \<noteq> JUndefined) \<and>
    get_prop args (js ''id'') = JUndefined \<and> get_prop args (js ''label'') = JUndefined \<longrightarrow>
      (\<exists>r. TapTool_execute h args calls = (Inr r, calls @ [probe]) \<and> error_shape r)) \<and>
   (tap_x options \<noteq> JUndefined \<and> tap_y options \<noteq> JUndefined \<longrightarrow>
      tap h options calls =
        tap h (options\<lparr>tap_id := JUndefined, tap_label := JUndefined\<rparr>) calls) \<and>
   (\<not> (tap_x options \<noteq> JUndefined \<and> tap_y options \<noteq> JUndefined) \<and>
    truthy (tap_id options) \<longrightarrow>
      tap h options calls = tap h (options\<lparr>tap_label := JUndefined\<rparr>) calls)"
proof (intro conjI impI)
  assume "tap_x options \<noteq> JUndefined \<and> tap_y options \<noteq> JUndefined"
  then show "tap h options calls =
        tap h (options\<lparr>tap_id := JUndefined, tap_label := JUndefined\<rparr>) calls"
    by (intro tap_by_target) (simp add: tap_target_coordinates)
next
  assume "\<not> (tap_x options \<noteq> JUndefined \<and> tap_y options \<noteq> JUndefined) \<and>
    truthy (tap_id options)"
  then show "tap h options calls = tap h (options\<lparr>tap_label := JUndefined\<rparr>) calls"
    by (intro tap_by_target) (simp add: tap_target_id)
next
  assume "\<not> (tap_x options \<noteq> JUndefined \<and> tap_y options \<noteq> JUndefined) \<and>
    \<not> truthy (tap_id options) \<and> \<not> truthy (tap_label options)"
  then have t: "tap_target h options =
      Inl (Error (js ''Must provide either coordinates (x, y), accessibility id, or label''))"
    by (auto simp: tap_target_def)
  show "\<exists>e. tap h options calls = (Inl e, calls @ [probe])"
  proof (rule bootedUDID_cases [of h calls])
    fix e assume "bootedUDID h calls = (Inl e, calls @ [probe])"
    then show ?thesis by (simp add: tap_def)
  next
    fix u assume "bootedUDID h calls = (Inr u, calls @ [probe])" "validateUDID (JStr u) = Inr u"
    then show ?thesis by (simp add: tap_def t)
  qed
next
  assume a: "\<not> (get_prop args (js ''x'') \<noteq> JUndefined \<and> get_prop args (js ''y'') \<noteq> JUndefined) \<and>
    get_prop args (js ''id'') = JUndefined \<and> get_prop args (js ''label'') = JUndefined"
  obtain b where b: "isSimulatorBooted h calls = (b, calls @ [probe])"
    using snd_isSimulatorBooted [of h calls] by (cases "isSimulatorBooted h calls") simp
  have e: "error_shape (createErrorResponse err ctx)" for err ctx
    unfolding error_shape_def createErrorResponse_def by blast
  show "\<exists>r. TapTool_execute h args calls = (Inr r, calls @ [probe]) \<and> error_shape r"
    using a by (cases b) (auto simp: TapTool_execute_def catching_def b Let_def not_running_def e)
qed

lemma fixture_String_num:
  "String_num fixture_host (Finite 100) = js ''100''"
  "String_num fixture_host (Finite 200) = js ''200''"
  by (simp_all add: String_num_def fixture_host_def fixture_to_string_def) code_simp+

lemma fixture_validateCoordinate:
  "validateCoordinate fixture_host (JNum (Finite 100)) nm 0 5000 = Inr (Finite 100)"
  "validateCoordinate fixture_host (JNum (Finite 200)) nm 0 5000 = Inr (Finite 200)"
  by (simp_all add: validateCoordinate_def Number_def)

lemma fixture_tap_target:
  "tap_target fixture_host fixture_tap = Inr [js ''-x'', js ''100'', js ''-y'', js ''200'']"
  by (simp add: tap_target_def fixture_tap_def fixture_validateCoordinate fixture_String_num)

lemma fixture_validateAccessibilityId:
  "validateAccessibilityId (JStr (js ''loginButton'')) = Inr (js ''loginButton'')"
  by code_simp

lemma fixture_tap_target_id:
  "tap_target fixture_host (fixture_tap\<lparr>tap_x := JUndefined\<rparr>) = Inr [js ''--id'', js ''loginButton'']"
proof -
  have "truthy (JStr (js ''loginButton''))" by (simp add: js_def)
  then show ?thesis
    by (simp add: tap_target_def fixture_tap_def fixture_validateAccessibilityId)
qed

lemma fixture_execute_axe:
  "execute fixture_host (js ''axe'' # args) utf8 calls =
     (Inr \<lparr>error = None, status = Some 0, stdout = [], stderr = []\<rparr>, calls @ [axe_call args])"
proof -
  have x: "js ''/opt/homebrew/bin/axe'' \<noteq> js ''/usr/bin/xcrun''"
    by (simp add: js_def)
  show ?thesis
    using x by (simp add: execute_axe fixture_host_def fixture_spawn_def check_result_def
        axe_call_def)
qed

lemma fixture_tap_run:
  assumes "tap_target fixture_host options = Inr target"
  shows "tap fixture_host options [] =
    (Inr (js ''Tap completed''), [probe, axe_call ([js ''tap'', js ''--udid'', fixture_udid] @ target)])"
  using tap_booted(1) [OF fixture_bootedUDID [of "[]"] assms]
  by (simp add: fixture_execute_axe stdout_or_def)

text \<open>
  C3, as stated, fails on the fixture host at a request with coordinates, an identifier
  and a label: \<open>tap\<close> is not rejected, and runs the tap at the coordinates.
\<close>

theorem tap_coordinates_and_id_accepted:
  "tap fixture_host
     \<lparr>tap_x = JNum (Finite 100), tap_y = JNum (Finite 200),
      tap_id = JStr (js ''loginButton''), tap_label = JStr (js ''Log in'')\<rparr> [] =
   (Inr (js ''Tap completed''),
    [probe, axe_call [js ''tap'', js ''--udid'', fixture_udid,
                      js ''-x'', js ''100'', js ''-y'', js ''200'']])"
  using fixture_tap_run [OF fixture_tap_target] by (simp add: fixture_tap_def)

theorem tap_precedence_witness:
  "tap fixture_host fixture_tap [] =
     tap fixture_host (fixture_tap\<lparr>tap_id := JUndefined, tap_label := JUndefined\<rparr>) [] \<and>
   snd (tap fixture_host fixture_tap []) =
     [probe, axe_call [js ''tap'', js ''--udid'', fixture_udid,
                       js ''-x'', js ''100'', js ''-y'', js ''200'']] \<and>
   tap fixture_host (fixture_tap\<lparr>tap_x := JUndefined\<rparr>) [] =
     tap fixture_host (fixture_tap\<lparr>tap_x := JUndefined, tap_label := JUndefined\<rparr>) [] \<and>
   snd (tap fixture_host (fixture_tap\<lparr>tap_x := JUndefined\<rparr>) []) =
     [probe, axe_call [js ''tap'', js ''--udid'', fixture_udid, js ''--id'', js ''loginButton'']]"
proof -
  let ?o = "fixture_tap\<lparr>tap_x := JUndefined\<rparr>"
  have a: "tap_x fixture_tap \<noteq> JUndefined \<and> tap_y fixture_tap \<noteq> JUndefined"
    by (simp add: fixture_tap_def)
  have b: "\<not> (tap_x ?o \<noteq> JUndefined \<and> tap_y ?o \<noteq> JUndefined) \<and> truthy (tap_id ?o)"
    by (simp add: fixture_tap_def js_def)
  note p1 = tap_precedence [of fixture_tap fixture_host "[]" JUndefined JUndefined
      fixture_udid "[] @ [probe]" "[js ''-x'', js ''100'', js ''-y'', js ''200'']"]
  note p2 = tap_precedence [of ?o fixture_host "[]" JUndefined JUndefined
      fixture_udid "[] @ [probe]" "[js ''--id'', js ''loginButton'']"]
  have c1: "tap fixture_host fixture_tap [] =
     tap fixture_host (fixture_tap\<lparr>tap_id := JUndefined, tap_label := JUndefined\<rparr>) []"
    using p1 a by blast
  have c2: "snd (tap fixture_host fixture_tap []) =
     [] @ [probe, axe_call ([js ''tap'', js ''--udid'', fixture_udid] @
                       [js ''-x'', js ''100'', js ''-y'', js ''200''])]"
    using p1 fixture_bootedUDID [of "[]"] fixture_tap_target by blast
  have c3: "tap fixture_host ?o [] = tap fixture_host (?o\<lparr>tap_label := JUndefined\<rparr>) []"
    using p2 b by blast
  have c4: "snd (tap fixture_host ?o []) =
     [] @ [probe, axe_call ([js ''tap'', js ''--udid'', fixture_udid] @
                       [js ''--id'', js ''loginButton''])]"
    using p2 fixture_bootedUDID [of "[]"] fixture_tap_target_id by blast
  show ?thesis
    using c1 c2 c3 c4 by simp
qed

theorem tap_none_rejected_witness:
  "isl (fst (tap fixture_host
       \<lparr>tap_x = JNum (Finite 100), tap_y = JUndefined, tap_id = JStr [], tap_label = JNull\<rparr> [])) \<and>
   snd (tap fixture_host
       \<lparr>tap_x = JNum (Finite 100), tap_y = JUndefined, tap_id = JStr [], tap_label = JNull\<rparr> [])
     = [probe] \<and>
   (\<exists>r. TapTool_execute fixture_host (JObj [(js ''x'', JNum (Finite 100))]) [] = (Inr r, [probe]) \<and>
        error_shape r) \<and>
   tap fixture_host fixture_tap [] =
     tap fixture_host (fixture_tap\<lparr>tap_id := JUndefined, tap_label := JUndefined\<rparr>) [] \<and>
   tap fixture_host (fixture_tap\<lparr>tap_y := JUndefined\<rparr>) [] =
     tap fixture_host (fixture_tap\<lparr>tap_y := JUndefined, tap_label := JUndefined\<rparr>) []"
proof -
  let ?o = "\<lparr>tap_x = JNum (Finite 100), tap_y = JUndefined, tap_id = JStr [], tap_label = JNull\<rparr>"
  let ?a = "JObj [(js ''x'', JNum (Finite 100))]"
  have a: "\<not> (tap_x ?o \<noteq> JUndefined \<and> tap_y ?o \<noteq> JUndefined) \<and>
    \<not> truthy (tap_id ?o) \<and> \<not> truthy (tap_label ?o)"
    by simp
  have b: "\<not> (get_prop ?a (js ''x'') \<noteq> JUndefined \<and> get_prop ?a (js ''y'') \<noteq> JUndefined) \<and>
    get_prop ?a (js ''id'') = JUndefined \<and> get_prop ?a (js ''label'') = JUndefined"
    by (simp add: js_def)
  from tap_none_rejected [where options = ?o and args = ?a and h = fixture_host and calls = "[]"] a
  obtain e where e: "tap fixture_host ?o [] = (Inl e, [] @ [probe])" by blast
  from tap_none_rejected [where options = ?o and args = ?a and h = fixture_host and calls = "[]"] b
  have r: "\<exists>r. TapTool_execute fixture_host ?a [] = (Inr r, [] @ [probe]) \<and> error_shape r"
    by blast
  have c: "tap_x fixture_tap \<noteq> JUndefined \<and> tap_y fixture_tap \<noteq> JUndefined"
    by (simp add: fixture_tap_def)
  let ?p = "fixture_tap\<lparr>tap_y := JUndefined\<rparr>"
  have d: "\<not> (tap_x ?p \<noteq> JUndefined \<and> tap_y ?p \<noteq> JUndefined) \<and> truthy (tap_id ?p)"
    by (simp add: fixture_tap_def js_def)
  from tap_none_rejected [where options = fixture_tap and h = fixture_host and calls = "[]"] c
  have p1: "tap fixture_host fixture_tap [] =
     tap fixture_host (fixture_tap\<lparr>tap_id := JUndefined, tap_label := JUndefined\<rparr>) []"
    by blast
  from tap_none_rejected [where options = ?p and h = fixture_host and calls = "[]"] d
  have p2: "tap fixture_host ?p [] = tap fixture_host (?p\<lparr>tap_label := JUndefined\<rparr>) []"
    by blast
  from e r p1 p2 show ?thesis by simp
qed

section \<open>Properties of the tools\<close>




































lemma spawn_fixture [simp]:
  "spawn fixture_host = fixture_spawn" "spawn tree_host = fixture_spawn"
  "spawn failing_host = failing_spawn" "spawn dead_host = (\<lambda>calls c. Inr boom_result)"
  by (simp_all add: fixture_host_def tree_host_def failing_host_def dead_host_def)









lemma list_neq [simp]:
  "[js ''simctl'', js ''io'', js ''booted'', js ''screenshot'', js ''-''] \<noteq> list_booted"
  "[js ''simctl'', js ''list'', js ''devices'', js ''--json''] \<noteq> list_booted"
  "js ''tap'' # a \<noteq> list_booted" "js ''gesture'' # a \<noteq> list_booted"
  "js ''swipe'' # a \<noteq> list_booted" "js ''type'' # a \<noteq> list_booted"
  "js ''describe-ui'' # a \<noteq> list_booted"
  by (simp_all add: list_booted_def js_def)






















end
